theory Spec2Isabelle
  imports Main "HOL-Library.Sublist" "HOL-Library.AList" "HOL-Library.Word"
begin

section \<open>CollapseUpdater: the self-update launcher of main.py\<close>

text \<open>
  The development embeds \<^verbatim>\<open>src/main.py\<close>: the class \<^verbatim>\<open>Updater\<close> with
  \<^verbatim>\<open>get_latest_release\<close>, \<^verbatim>\<open>download_latest_release\<close>,
  \<^verbatim>\<open>delete_old_releases\<close> and \<^verbatim>\<open>main\<close>, and the module-level guard
  that starts it. The outside world is explicit: the working directory is a store that
  is passed in and returned, the network is a record of what each request answers, and
  what the program does to the outside (console output, requests, files opened and
  removed, the final \<^verbatim>\<open>os.system\<close>) is appended to a trace of events in the order
  in which the code performs it, together with the presence check of \<^verbatim>\<open>main\<close> and
  its answer. The listing by \<^verbatim>\<open>glob\<close> and the tests by \<^verbatim>\<open>os.path.isfile\<close> read
  the store and leave no event. An exception that leaves a method is the \<open>Inl\<close>
  branch of its result.

  Not modelled: the JSON decoding of a response body (a body is taken as already decoded
  and well-formed), failures of \<^verbatim>\<open>os.remove\<close> and of \<^verbatim>\<open>open\<close> other than
  opening a directory, the rendering of the progress bar (only its \<^verbatim>\<open>advance\<close>
  calls are kept), what the launched program does, and other processes touching the
  directory while the updater runs.
\<close>

subsection \<open>Release metadata\<close>

text \<open>The fields of a GitHub asset and release object that the code reads.\<close>

record asset =
  asset_name :: string
  asset_size :: nat
  browser_download_url :: string

record release =
  tag_name :: string
  prerelease :: bool
  assets :: "asset list"

subsection \<open>Command line\<close>

text \<open>
  \<^verbatim>\<open>args, unknown = parser.parse_known_args()\<close> runs once when the module is loaded.
  \<open>prelease\<close> is \<^verbatim>\<open>args.prelease\<close>, the value argparse computed for the
  \<^verbatim>\<open>--prelease\<close> flag; \<open>argv\<close> is \<^verbatim>\<open>sys.argv\<close>, which argparse leaves
  unchanged. \<^verbatim>\<open>unknown\<close> is never read by the program.
\<close>

record invocation =
  prelease :: bool
  argv :: "string list"

subsection \<open>Network\<close>

type_synonym bytes = "8 word list"

text \<open>
  What \<^verbatim>\<open>requests.get\<close> does: it raises (no connection, timeout, ...) or returns a
  response with a status code and a body.
\<close>

datatype 'a http_outcome = Raised | Response nat 'a

text \<open>
  The body of a streamed download: the chunks \<^verbatim>\<open>iter_content\<close> yields, and whether
  the iteration then ends normally or raises because the transport broke.
\<close>

datatype stream_end = EndOfStream | StreamBroken

datatype url = ApiLatest | ApiReleases | AssetUrl string

record network =
  api_latest :: "release http_outcome"
  api_releases :: "release list http_outcome"
  asset_get :: "string \<Rightarrow> (bytes list \<times> stream_end) http_outcome"

subsection \<open>Exceptions and the trace\<close>

datatype exn =
    RequestException \<comment> \<open>raised by \<^verbatim>\<open>requests.get\<close> itself\<close>
  | HTTPError nat \<comment> \<open>raised by \<^verbatim>\<open>raise_for_status\<close>, with the status code\<close>
  | StreamError \<comment> \<open>raised by \<^verbatim>\<open>iter_content\<close> when the transport breaks\<close>
  | IndexError \<comment> \<open>\<^verbatim>\<open>[0]\<close> on an empty list\<close>
  | IsADirectoryError \<comment> \<open>\<^verbatim>\<open>open(name, "wb")\<close> on a directory\<close>

datatype message =
    Banner string \<comment> \<open>Updater for <repo>\<close>
  | RateLimitExceeded \<comment> \<open>Error: Rate limit exceeded! Please wait a while before trying again.\<close>
  | FetchFailed \<comment> \<open>Error: Failed to fetch latest release!\<close>
  | ExnText exn \<comment> \<open>\<^verbatim>\<open>print(e)\<close>\<close>
  | FetchingPreRelease \<comment> \<open>Fetching latest pre-release...\<close>
  | NoPreReleaseFound \<comment> \<open>Error: No pre-release found!\<close>
  | DownloadingPreRelease string \<comment> \<open>Downloading latest pre-release: <name>\<close>
  | DownloadingRelease string \<comment> \<open>Downloading latest release: <name>\<close>
  | DownloadedSuccessfully string \<comment> \<open>Downloaded successfully: <name>\<close>
  | DeletedOldRelease string \<comment> \<open>Deleted old release: <name>\<close>
  | AlreadyDownloaded \<comment> \<open>Latest version already downloaded.\<close>
  | Starting \<comment> \<open>Starting CollapseLoader...\<close>

datatype event =
    Print message
  | HttpGet url
  | OpenWrite string
  | Advance nat
  | Remove string
  | Exists string bool \<comment> \<open>\<^verbatim>\<open>os.path.exists(name)\<close> in \<^verbatim>\<open>main\<close>, and what it answered\<close>
  | System string

subsection \<open>The working directory\<close>

text \<open>
  A directory entry is a regular file with its contents, or a directory. The store is
  the directory as an association list in listing order; every operation reads it
  through \<open>map_of\<close>.
\<close>

datatype entry = File bytes | Dir

type_synonym store = "(string \<times> entry) list"

definition path_exists :: "store \<Rightarrow> string \<Rightarrow> bool" where
  "path_exists fs n = (map_of fs n \<noteq> None)"

definition path_isfile :: "store \<Rightarrow> string \<Rightarrow> bool" where
  "path_isfile fs n = (case map_of fs n of Some (File b) \<Rightarrow> True | _ \<Rightarrow> False)"

definition os_remove :: "string \<Rightarrow> store \<Rightarrow> store" where
  "os_remove n fs = AList.delete n fs"

text \<open>\<^verbatim>\<open>glob.glob("CollapseLoader*")\<close>: the names in the directory that start with the prefix.\<close>

definition release_prefix :: string where
  "release_prefix = ''CollapseLoader''"

definition matches_prefix :: "string \<Rightarrow> bool" where
  "matches_prefix n = prefix release_prefix n"

definition glob_old_releases :: "store \<Rightarrow> string list" where
  "glob_old_releases fs = filter matches_prefix (map fst fs)"

text \<open>\<^verbatim>\<open>file.write(chunk)\<close> on the file opened under the name \<open>n\<close>.\<close>

definition file_write :: "string \<Rightarrow> bytes \<Rightarrow> store \<Rightarrow> store" where
  "file_write n c fs =
     (case map_of fs n of
        Some (File b) \<Rightarrow> AList.update n (File (b @ c)) fs
      | _ \<Rightarrow> fs)"

subsection \<open>\<^verbatim>\<open>Updater.get_latest_release\<close>\<close>

text \<open>
  The \<^verbatim>\<open>try\<close> block (lines 36 to 53): \<^verbatim>\<open>raise_for_status\<close> raises
  \<^verbatim>\<open>HTTPError\<close> for every status from 400 to 599, and the \<^verbatim>\<open>except\<close> clause
  catches it together with what \<^verbatim>\<open>requests.get\<close> raises. The two status tests
  follow in the order of the source. \<open>None\<close> is the \<^verbatim>\<open>return False\<close>.
\<close>

definition fetch :: "url \<Rightarrow> 'a http_outcome \<Rightarrow> event list \<times> 'a option" where
  "fetch u outcome =
     (case outcome of
        Raised \<Rightarrow> ([HttpGet u, Print FetchFailed, Print (ExnText RequestException)], None)
      | Response status body \<Rightarrow>
          if 400 \<le> status \<and> status < 600
          then ([HttpGet u, Print FetchFailed, Print (ExnText (HTTPError status))], None)
          else if status = 429 then ([HttpGet u, Print RateLimitExceeded], None)
          else if status \<noteq> 200 then ([HttpGet u, Print FetchFailed], None)
          else ([HttpGet u], Some body))"

definition get_latest_release :: "bool \<Rightarrow> network \<Rightarrow> event list \<times> release option" where
  "get_latest_release pre net =
     (if pre then
        (case fetch ApiReleases (api_releases net) of
           (ev, None) \<Rightarrow> (ev, None)
         | (ev, Some rs) \<Rightarrow>
             (case find prerelease rs of
                Some r \<Rightarrow> (ev @ [Print FetchingPreRelease], Some r)
              | None \<Rightarrow> (ev @ [Print FetchingPreRelease, Print NoPreReleaseFound], None)))
      else fetch ApiLatest (api_latest net))"

subsection \<open>\<^verbatim>\<open>Updater.download_latest_release\<close>\<close>

text \<open>The loop over \<^verbatim>\<open>response.iter_content\<close>: write the chunk, advance the progress bar.\<close>

fun write_chunks :: "string \<Rightarrow> bytes list \<Rightarrow> store \<Rightarrow> event list \<times> store" where
  "write_chunks n [] fs = ([], fs)"
| "write_chunks n (c # cs) fs =
     (case write_chunks n cs (file_write n c fs) of
        (ev, fs') \<Rightarrow> (Advance (length c) # ev, fs'))"

definition download_latest_release ::
  "bool \<Rightarrow> network \<Rightarrow> release option \<Rightarrow> store \<Rightarrow> event list \<times> store \<times> (exn + unit)" where
  "download_latest_release pre net latest_release fs =
     (case latest_release of
        None \<Rightarrow> ([], fs, Inr ())
      | Some rel \<Rightarrow>
          (case assets rel of
             [] \<Rightarrow> ([], fs, Inl IndexError)
           | a # _ \<Rightarrow>
               (let n = asset_name a;
                    ev0 = [Print (if pre then DownloadingPreRelease n else DownloadingRelease n),
                           HttpGet (AssetUrl (browser_download_url a))]
                in case asset_get net (browser_download_url a) of
                     Raised \<Rightarrow> (ev0, fs, Inl RequestException)
                   | Response status (cs, e) \<Rightarrow>
                       if 400 \<le> status \<and> status < 600 then (ev0, fs, Inl (HTTPError status))
                       else if map_of fs n = Some Dir then (ev0, fs, Inl IsADirectoryError)
                       else
                         (case write_chunks n cs (AList.update n (File []) fs) of
                            (ev1, fs1) \<Rightarrow>
                              (case e of
                                 StreamBroken \<Rightarrow> (ev0 @ OpenWrite n # ev1, fs1, Inl StreamError)
                               | EndOfStream \<Rightarrow>
                                   (ev0 @ OpenWrite n # ev1 @ [Print (DownloadedSuccessfully n)],
                                    fs1, Inr ()))))))"

subsection \<open>\<^verbatim>\<open>Updater.delete_old_releases\<close>\<close>

text \<open>
  The loop over the names that \<^verbatim>\<open>glob\<close> returned. \<^verbatim>\<open>os.path.isfile\<close> is asked of
  the directory as it is when the loop reaches the name.
\<close>

fun delete_loop :: "string option \<Rightarrow> string list \<Rightarrow> store \<Rightarrow> event list \<times> store" where
  "delete_loop exclude_file [] fs = ([], fs)"
| "delete_loop exclude_file (old_release # rest) fs =
     (if Some old_release \<noteq> exclude_file \<and> path_isfile fs old_release
      then (case delete_loop exclude_file rest (os_remove old_release fs) of
              (ev, fs') \<Rightarrow> (Remove old_release # Print (DeletedOldRelease old_release) # ev, fs'))
      else delete_loop exclude_file rest fs)"

definition delete_old_releases :: "string option \<Rightarrow> store \<Rightarrow> event list \<times> store" where
  "delete_old_releases exclude_file fs = delete_loop exclude_file (glob_old_releases fs) fs"

subsection \<open>\<^verbatim>\<open>Updater.main\<close> and the module\<close>

text \<open>\<^verbatim>\<open>" ".join(command)\<close>\<close>

fun join_space :: "string list \<Rightarrow> string" where
  "join_space [] = []"
| "join_space [x] = x"
| "join_space (x # y # ys) = x @ '' '' @ join_space (y # ys)"

definition command :: "string \<Rightarrow> invocation \<Rightarrow> string list" where
  "command latest_release_filename cli = latest_release_filename # drop 1 (argv cli)"

definition main ::
  "invocation \<Rightarrow> network \<Rightarrow> release option \<Rightarrow> store \<Rightarrow> event list \<times> store \<times> (exn + unit)" where
  "main cli net latest_release fs =
     (case latest_release of
        None \<Rightarrow> ([], fs, Inr ())
      | Some rel \<Rightarrow>
          (case assets rel of
             [] \<Rightarrow> ([], fs, Inl IndexError)
           | a # _ \<Rightarrow>
               (let latest_release_filename = asset_name a
                in case delete_old_releases (Some latest_release_filename) fs of
                     (ev1, fs1) \<Rightarrow>
                       (let present = path_exists fs1 latest_release_filename;
                            checked = ev1 @ [Exists latest_release_filename present]
                        in case (if \<not> present
                                 then download_latest_release (prelease cli) net latest_release fs1
                                 else ([Print AlreadyDownloaded], fs1, Inr ())) of
                             (ev2, fs2, Inl e) \<Rightarrow> (checked @ ev2, fs2, Inl e)
                           | (ev2, fs2, Inr u) \<Rightarrow>
                               (checked @ ev2 @
                                  [Print Starting,
                                   System (join_space (command latest_release_filename cli))],
                                fs2, Inr ())))))"

definition github_repo :: string where
  "github_repo = ''dest4590/CollapseLoader''"

text \<open>\<^verbatim>\<open>Updater.__init__\<close>: the banner, then the resolution, kept in \<^verbatim>\<open>self.latest_release\<close>.\<close>

definition Updater_init :: "invocation \<Rightarrow> network \<Rightarrow> event list \<times> release option" where
  "Updater_init cli net =
     (case get_latest_release (prelease cli) net of
        (ev, r) \<Rightarrow> (Print (Banner github_repo) # ev, r))"

text \<open>
  The last two lines of the module: \<^verbatim>\<open>Updater(github_repo).main()\<close>, unless
  \<^verbatim>\<open>sys.argv[0]\<close> contains \<^verbatim>\<open>_child.py\<close>.
\<close>

definition run :: "invocation \<Rightarrow> network \<Rightarrow> store \<Rightarrow> event list \<times> store \<times> (exn + unit)" where
  "run cli net fs =
     (case argv cli of
        [] \<Rightarrow> ([], fs, Inl IndexError)
      | a0 # _ \<Rightarrow>
          if sublist ''_child.py'' a0 then ([], fs, Inr ())
          else (case Updater_init cli net of
                  (ev, latest_release) \<Rightarrow>
                    (case main cli net latest_release fs of
                       (ev', fs', r) \<Rightarrow> (ev @ ev', fs', r))))"

subsection \<open>Inputs of the examples\<close>

text \<open>A download server that gives the same answer for every address.\<close>

definition answering :: "(bytes list \<times> stream_end) http_outcome \<Rightarrow> string \<Rightarrow> (bytes list \<times> stream_end) http_outcome" where
  "answering outcome u = outcome"

definition an_asset :: "string \<Rightarrow> asset" where
  "an_asset n = \<lparr>asset_name = n, asset_size = 2, browser_download_url = ''https://github.com/dl/'' @ n\<rparr>"

definition a_release :: "string \<Rightarrow> bool \<Rightarrow> asset list \<Rightarrow> release" where
  "a_release t p as = \<lparr>tag_name = t, prerelease = p, assets = as\<rparr>"

section \<open>Properties\<close>

subsection \<open>The store under removal and pruning\<close>

lemma map_of_os_remove: "map_of (os_remove n fs) k = (if k = n then None else map_of fs k)"
  by (simp add: os_remove_def delete_conv')

lemma path_isfile_os_remove:
  "path_isfile (os_remove n fs) k = (k \<noteq> n \<and> path_isfile fs k)"
  by (simp add: path_isfile_def map_of_os_remove)

lemma delete_loop_lookup:
  "map_of (snd (delete_loop ex ns fs)) n =
     (if n \<in> set ns \<and> Some n \<noteq> ex \<and> path_isfile fs n then None else map_of fs n)"
proof (induction ns arbitrary: fs)
  case Nil
  show ?case by simp
next
  case (Cons m ns)
  show ?case
  proof (cases "Some m \<noteq> ex \<and> path_isfile fs m")
    case True
    then have "snd (delete_loop ex (m # ns) fs) = snd (delete_loop ex ns (os_remove m fs))"
      by (simp split: prod.splits)
    then show ?thesis using True
      by (auto simp: Cons.IH map_of_os_remove path_isfile_os_remove)
  next
    case False
    then have "delete_loop ex (m # ns) fs = delete_loop ex ns fs" by auto
    then show ?thesis using False by (auto simp: Cons.IH)
  qed
qed

lemma delete_loop_events:
  "set (fst (delete_loop ex ns fs)) \<subseteq>
     (\<Union>n \<in> {n \<in> set ns. Some n \<noteq> ex \<and> path_isfile fs n}. {Remove n, Print (DeletedOldRelease n)})"
proof (induction ns arbitrary: fs)
  case Nil
  show ?case by simp
next
  case (Cons m ns)
  show ?case
  proof (cases "Some m \<noteq> ex \<and> path_isfile fs m")
    case True
    then have "fst (delete_loop ex (m # ns) fs) =
        Remove m # Print (DeletedOldRelease m) # fst (delete_loop ex ns (os_remove m fs))"
      by (simp split: prod.splits)
    then show ?thesis using True Cons.IH [of "os_remove m fs"]
      by (auto simp: path_isfile_os_remove)
  next
    case False
    then have "delete_loop ex (m # ns) fs = delete_loop ex ns fs" by auto
    then show ?thesis using False Cons.IH [of fs] by auto
  qed
qed

lemma delete_loop_removes:
  "n \<in> set ns \<Longrightarrow> Some n \<noteq> ex \<Longrightarrow> path_isfile fs n \<Longrightarrow> Remove n \<in> set (fst (delete_loop ex ns fs))"
proof (induction ns arbitrary: fs)
  case Nil
  then show ?case by simp
next
  case (Cons m ns)
  show ?case
  proof (cases "Some m \<noteq> ex \<and> path_isfile fs m")
    case True
    then have eq: "fst (delete_loop ex (m # ns) fs) =
        Remove m # Print (DeletedOldRelease m) # fst (delete_loop ex ns (os_remove m fs))"
      by (simp split: prod.splits)
    show ?thesis
    proof (cases "n = m")
      case True
      then show ?thesis using eq by simp
    next
      case False
      then have "Remove n \<in> set (fst (delete_loop ex ns (os_remove m fs)))"
        using Cons.prems by (intro Cons.IH) (auto simp: path_isfile_os_remove)
      then show ?thesis using eq by simp
    qed
  next
    case False
    then have "delete_loop ex (m # ns) fs = delete_loop ex ns fs" by auto
    moreover have "n \<noteq> m" using False Cons.prems by auto
    ultimately show ?thesis using Cons.prems Cons.IH [of fs] by auto
  qed
qed

lemma delete_loop_idle:
  "\<forall>n \<in> set ns. \<not> (Some n \<noteq> ex \<and> path_isfile fs n) \<Longrightarrow> delete_loop ex ns fs = ([], fs)"
  by (induction ns) auto

lemma in_glob_old_releases:
  "n \<in> set (glob_old_releases fs) \<longleftrightarrow> matches_prefix n \<and> path_exists fs n"
  by (auto simp: glob_old_releases_def path_exists_def map_of_eq_None_iff)

lemma path_isfile_exists: "path_isfile fs n \<Longrightarrow> path_exists fs n"
  by (auto simp: path_isfile_def path_exists_def split: option.splits)

lemma delete_old_releases_lookup:
  "map_of (snd (delete_old_releases ex fs)) n =
     (if matches_prefix n \<and> Some n \<noteq> ex \<and> path_isfile fs n then None else map_of fs n)"
  using path_isfile_exists [of fs n]
  by (auto simp: delete_old_releases_def delete_loop_lookup in_glob_old_releases)

lemma delete_old_releases_events:
  "e \<in> set (fst (delete_old_releases ex fs)) \<Longrightarrow>
   \<exists>n. (e = Remove n \<or> e = Print (DeletedOldRelease n)) \<and> matches_prefix n \<and> Some n \<noteq> ex \<and> path_isfile fs n"
  using delete_loop_events [of ex "glob_old_releases fs" fs]
  by (auto simp: delete_old_releases_def in_glob_old_releases)

subsection \<open>The store under a download\<close>

lemma write_chunks_step:
  "fst (write_chunks n (c # cs) fs) = Advance (length c) # fst (write_chunks n cs (file_write n c fs))"
  "snd (write_chunks n (c # cs) fs) = snd (write_chunks n cs (file_write n c fs))"
  by (simp_all split: prod.splits)

lemma write_chunks_events: "fst (write_chunks n cs fs) = map (\<lambda>c. Advance (length c)) cs"
proof (induction cs arbitrary: fs)
  case Nil
  show ?case by simp
next
  case (Cons c cs)
  show ?case unfolding write_chunks_step by (simp add: Cons.IH)
qed

lemma map_of_file_write:
  "map_of fs n = Some (File b) \<Longrightarrow> map_of (file_write n c fs) = (map_of fs)(n \<mapsto> File (b @ c))"
  by (simp add: file_write_def update_conv')

lemma write_chunks_lookup:
  "map_of fs n = Some (File b) \<Longrightarrow>
   map_of (snd (write_chunks n cs fs)) = (map_of fs)(n \<mapsto> File (b @ concat cs))"
proof (induction cs arbitrary: fs b)
  case Nil
  then show ?case by (auto simp: fun_eq_iff)
next
  case (Cons c cs)
  have "map_of (file_write n c fs) n = Some (File (b @ c))"
    using Cons.prems by (simp add: map_of_file_write)
  from Cons.IH [OF this] show ?case
    unfolding write_chunks_step using Cons.prems by (auto simp: map_of_file_write fun_eq_iff)
qed

lemma write_after_open:
  "map_of (snd (write_chunks n cs (AList.update n (File []) fs))) = (map_of fs)(n \<mapsto> File (concat cs))"
  using write_chunks_lookup [of "AList.update n (File []) fs" n "[]" cs]
  by (simp add: update_conv')

text \<open>What a download does, by the answer of the asset request.\<close>

lemma download_raised:
  assumes "assets rel = a # rest" and "asset_get net (browser_download_url a) = Raised"
  shows "download_latest_release pre net (Some rel) fs =
    ([Print (if pre then DownloadingPreRelease (asset_name a) else DownloadingRelease (asset_name a)),
      HttpGet (AssetUrl (browser_download_url a))], fs, Inl RequestException)"
  using assms by (simp add: download_latest_release_def)

lemma download_status_error:
  assumes "assets rel = a # rest"
    and "asset_get net (browser_download_url a) = Response status body"
    and "400 \<le> status \<and> status < 600"
  shows "download_latest_release pre net (Some rel) fs =
    ([Print (if pre then DownloadingPreRelease (asset_name a) else DownloadingRelease (asset_name a)),
      HttpGet (AssetUrl (browser_download_url a))], fs, Inl (HTTPError status))"
  using assms by (cases body) (simp add: download_latest_release_def)

lemma download_streamed:
  assumes "assets rel = a # rest"
    and "asset_get net (browser_download_url a) = Response status (cs, e)"
    and "\<not> (400 \<le> status \<and> status < 600)"
    and "map_of fs (asset_name a) \<noteq> Some Dir"
  shows "\<exists>fs'. download_latest_release pre net (Some rel) fs =
    ([Print (if pre then DownloadingPreRelease (asset_name a) else DownloadingRelease (asset_name a)),
      HttpGet (AssetUrl (browser_download_url a)), OpenWrite (asset_name a)]
     @ map (\<lambda>c. Advance (length c)) cs
     @ (case e of EndOfStream \<Rightarrow> [Print (DownloadedSuccessfully (asset_name a))] | StreamBroken \<Rightarrow> []),
     fs', case e of EndOfStream \<Rightarrow> Inr () | StreamBroken \<Rightarrow> Inl StreamError)
    \<and> map_of fs' = (map_of fs)(asset_name a \<mapsto> File (concat cs))"
proof -
  obtain ev1 fs1 where w: "write_chunks (asset_name a) cs (AList.update (asset_name a) (File []) fs) = (ev1, fs1)"
    by (cases "write_chunks (asset_name a) cs (AList.update (asset_name a) (File []) fs)")
  have ev1: "ev1 = map (\<lambda>c. Advance (length c)) cs"
    using write_chunks_events [of "asset_name a" cs "AList.update (asset_name a) (File []) fs"] w by simp
  have fs1: "map_of fs1 = (map_of fs)(asset_name a \<mapsto> File (concat cs))"
    using write_after_open [of "asset_name a" cs fs] w by simp
  show ?thesis
    using assms w ev1 fs1
    by (cases e) (simp_all add: download_latest_release_def Let_def)
qed

subsection \<open>Resolution\<close>

lemma fetch_Some: "fetch u outcome = (ev, Some body) \<Longrightarrow> outcome = Response 200 body \<and> ev = [HttpGet u]"
  by (auto simp: fetch_def split: http_outcome.splits if_splits)

lemma fetch_ok: "fetch u (Response 200 body) = ([HttpGet u], Some body)"
  by (simp add: fetch_def)

lemma fetch_never_rate_limit: "Print RateLimitExceeded \<notin> set (fst (fetch u outcome))"
  by (auto simp: fetch_def split: http_outcome.splits)

lemma get_latest_release_never_rate_limit:
  "Print RateLimitExceeded \<notin> set (fst (get_latest_release pre net))"
proof (cases pre)
  case False
  then show ?thesis by (simp add: get_latest_release_def fetch_never_rate_limit)
next
  case True
  obtain ev res where f: "fetch ApiReleases (api_releases net) = (ev, res)"
    by (cases "fetch ApiReleases (api_releases net)")
  have "Print RateLimitExceeded \<notin> set ev"
    using fetch_never_rate_limit [of ApiReleases "api_releases net"] f by simp
  then show ?thesis using True f
    by (auto simp: get_latest_release_def split: option.splits)
qed

subsection \<open>The main sequence\<close>

lemma delete_old_releases_keeps_target:
  "map_of (snd (delete_old_releases (Some n) fs)) n = map_of fs n"
  by (simp add: delete_old_releases_lookup)

lemma path_exists_after_delete:
  "path_exists (snd (delete_old_releases (Some n) fs)) n = path_exists fs n"
  by (simp add: path_exists_def delete_old_releases_keeps_target)

lemma download_directory:
  assumes "assets rel = a # rest"
    and "asset_get net (browser_download_url a) = Response status body"
    and "\<not> (400 \<le> status \<and> status < 600)"
    and "map_of fs (asset_name a) = Some Dir"
  shows "download_latest_release pre net (Some rel) fs =
    ([Print (if pre then DownloadingPreRelease (asset_name a) else DownloadingRelease (asset_name a)),
      HttpGet (AssetUrl (browser_download_url a))], fs, Inl IsADirectoryError)"
  using assms by (cases body) (simp add: download_latest_release_def Let_def)

text \<open>What every download has in common.\<close>

lemma download_summary:
  assumes "assets rel = a # rest"
  shows "\<exists>ev fs' r. download_latest_release pre net (Some rel) fs = (ev, fs', r)
     \<and> HttpGet (AssetUrl (browser_download_url a)) \<in> set ev
     \<and> (\<forall>k. Remove k \<notin> set ev) \<and> (\<forall>c. System c \<notin> set ev)
     \<and> (\<forall>k b. Exists k b \<notin> set ev)
     \<and> Print AlreadyDownloaded \<notin> set ev
     \<and> (\<forall>k. k \<noteq> asset_name a \<longrightarrow> map_of fs' k = map_of fs k)
     \<and> (r = Inr () \<longrightarrow> path_isfile fs' (asset_name a))
     \<and> (\<exists>ev'. ev = Print (if pre then DownloadingPreRelease (asset_name a)
                             else DownloadingRelease (asset_name a))
                      # HttpGet (AssetUrl (browser_download_url a)) # ev')"
proof (cases "asset_get net (browser_download_url a)")
  case Raised
  show ?thesis unfolding download_raised [OF assms Raised] by simp
next
  case (Response status body)
  obtain cs e where body: "body = (cs, e)" by (cases body)
  show ?thesis
  proof (cases "400 \<le> status \<and> status < 600")
    case True
    show ?thesis unfolding download_status_error [OF assms Response True] by simp
  next
    case ok: False
    show ?thesis
    proof (cases "map_of fs (asset_name a) = Some Dir")
      case True
      show ?thesis unfolding download_directory [OF assms Response ok True] by simp
    next
      case False
      from download_streamed [OF assms Response [unfolded body] ok False, of pre]
      obtain fs' where d: "download_latest_release pre net (Some rel) fs =
        ([Print (if pre then DownloadingPreRelease (asset_name a) else DownloadingRelease (asset_name a)),
          HttpGet (AssetUrl (browser_download_url a)), OpenWrite (asset_name a)]
         @ map (\<lambda>c. Advance (length c)) cs
         @ (case e of EndOfStream \<Rightarrow> [Print (DownloadedSuccessfully (asset_name a))] | StreamBroken \<Rightarrow> []),
         fs', case e of EndOfStream \<Rightarrow> Inr () | StreamBroken \<Rightarrow> Inl StreamError)"
        and m: "map_of fs' = (map_of fs)(asset_name a \<mapsto> File (concat cs))" by blast
      show ?thesis unfolding d using m
        by (cases e) (auto simp: path_isfile_def)
    qed
  qed
qed

lemma main_target_present:
  assumes "assets rel = a # rest" and "path_exists fs (asset_name a)"
  shows "main cli net (Some rel) fs =
    (fst (delete_old_releases (Some (asset_name a)) fs)
       @ [Exists (asset_name a) True, Print AlreadyDownloaded, Print Starting,
          System (join_space (command (asset_name a) cli))],
     snd (delete_old_releases (Some (asset_name a)) fs), Inr ())"
proof -
  obtain ev1 fs1 where d: "delete_old_releases (Some (asset_name a)) fs = (ev1, fs1)"
    by (cases "delete_old_releases (Some (asset_name a)) fs")
  have "path_exists fs1 (asset_name a)"
    using path_exists_after_delete [of "asset_name a" fs] d assms by simp
  then show ?thesis using assms d by (simp add: main_def Let_def)
qed

lemma main_target_absent:
  assumes "assets rel = a # rest" and "\<not> path_exists fs (asset_name a)"
    and "download_latest_release (prelease cli) net (Some rel)
           (snd (delete_old_releases (Some (asset_name a)) fs)) = (ev2, fs2, r)"
  shows "main cli net (Some rel) fs =
    (fst (delete_old_releases (Some (asset_name a)) fs) @ Exists (asset_name a) False # ev2
       @ (case r of Inl e \<Rightarrow> []
          | Inr u \<Rightarrow> [Print Starting, System (join_space (command (asset_name a) cli))]),
     fs2, r)"
proof -
  obtain ev1 fs1 where d: "delete_old_releases (Some (asset_name a)) fs = (ev1, fs1)"
    by (cases "delete_old_releases (Some (asset_name a)) fs")
  have "\<not> path_exists fs1 (asset_name a)"
    using path_exists_after_delete [of "asset_name a" fs] d assms by simp
  then show ?thesis using assms d by (cases r) (simp_all add: main_def Let_def)
qed

lemma delete_old_releases_removes:
  assumes "matches_prefix n" and "Some n \<noteq> ex" and "path_isfile fs n"
  shows "Remove n \<in> set (fst (delete_old_releases ex fs))"
  unfolding delete_old_releases_def
  using assms path_isfile_exists [of fs n]
  by (intro delete_loop_removes) (simp_all add: in_glob_old_releases)

lemma delete_old_releases_idle:
  assumes "\<forall>n. matches_prefix n \<and> path_isfile fs n \<longrightarrow> Some n = ex"
  shows "delete_old_releases ex fs = ([], fs)"
  unfolding delete_old_releases_def
  using assms by (intro delete_loop_idle) (auto simp: in_glob_old_releases)

lemma delete_old_releases_no_request:
  "HttpGet v \<notin> set (fst (delete_old_releases ex fs))"
  "OpenWrite k \<notin> set (fst (delete_old_releases ex fs))"
  "System c \<notin> set (fst (delete_old_releases ex fs))"
  "Print AlreadyDownloaded \<notin> set (fst (delete_old_releases ex fs))"
  "Exists k b \<notin> set (fst (delete_old_releases ex fs))"
  using delete_old_releases_events [of _ ex fs] by blast+

text \<open>The definitions unfolded to run the program on a concrete input.\<close>

lemmas run_simps = main_def Let_def delete_old_releases_def glob_old_releases_def matches_prefix_def
  release_prefix_def path_isfile_def path_exists_def os_remove_def download_latest_release_def
  command_def a_release_def an_asset_def answering_def file_write_def

subsection \<open>A whole run\<close>

lemma fetch_events:
  "e \<in> set (fst (fetch v outcome)) \<Longrightarrow> e = HttpGet v \<or> (\<exists>m. e = Print m)"
  by (auto simp: fetch_def split: http_outcome.splits if_splits)

lemma get_latest_release_events:
  assumes "e \<in> set (fst (get_latest_release pre net))"
  shows "e = HttpGet ApiLatest \<or> e = HttpGet ApiReleases \<or> (\<exists>m. e = Print m)"
proof (cases pre)
  case False
  then show ?thesis using assms fetch_events [of e ApiLatest "api_latest net"]
    by (auto simp: get_latest_release_def)
next
  case True
  obtain ev res where f: "fetch ApiReleases (api_releases net) = (ev, res)"
    by (cases "fetch ApiReleases (api_releases net)")
  have "e' \<in> set ev \<Longrightarrow> e' = HttpGet ApiReleases \<or> (\<exists>m. e' = Print m)" for e'
    using fetch_events [of e' ApiReleases "api_releases net"] f by simp
  then show ?thesis using True f assms
    by (auto simp: get_latest_release_def split: option.splits)
qed

lemma run_started:
  assumes "argv cli = a0 # as" and "\<not> sublist ''_child.py'' a0"
    and "get_latest_release (prelease cli) net = (evr, latest)"
    and "main cli net latest fs = (evm, fs', r)"
  shows "run cli net fs = (Print (Banner github_repo) # evr @ evm, fs', r)"
  using assms by (simp add: run_def Updater_init_def)

lemma run_not_started:
  assumes "argv cli = [] \<or> (\<exists>a0 as. argv cli = a0 # as \<and> sublist ''_child.py'' a0)"
  shows "fst (run cli net fs) = []"
  using assms by (auto simp: run_def)

lemma main_unresolved: "main cli net None fs = ([], fs, Inr ())"
  by (simp add: main_def)

lemma main_no_asset: "assets rel = [] \<Longrightarrow> main cli net (Some rel) fs = ([], fs, Inl IndexError)"
  by (simp add: main_def)

lemma main_after_download:
  assumes "assets rel = a # rest"
    and "main cli net (Some rel) fs = (ev, fs', Inr ())"
    and "HttpGet (AssetUrl u) \<in> set ev"
  shows "path_isfile fs' (asset_name a)
       \<and> (\<forall>n. matches_prefix n \<and> path_isfile fs' n \<longrightarrow> n = asset_name a)"
proof -
  let ?n = "asset_name a"
  obtain ev1 fs1 where p: "delete_old_releases (Some ?n) fs = (ev1, fs1)"
    by (cases "delete_old_releases (Some ?n) fs")
  have noreq: "HttpGet v \<notin> set ev1" for v
    using delete_old_releases_no_request(1) [of v "Some ?n" fs] p by simp
  have absent: "\<not> path_exists fs ?n"
  proof
    assume "path_exists fs ?n"
    from main_target_present [OF assms(1) this, of cli net] p assms(2)
    have "ev = ev1 @ [Exists ?n True, Print AlreadyDownloaded, Print Starting,
                      System (join_space (command ?n cli))]"
      by simp
    then show False using assms(3) noreq by simp
  qed
  from download_summary [OF assms(1), of "prelease cli" net fs1]
  obtain ev2 fs2 r2 where d: "download_latest_release (prelease cli) net (Some rel) fs1 = (ev2, fs2, r2)"
    and frame: "\<forall>k. k \<noteq> ?n \<longrightarrow> map_of fs2 k = map_of fs1 k"
    and fin: "r2 = Inr () \<longrightarrow> path_isfile fs2 ?n" by blast
  from main_target_absent [OF assms(1) absent, of cli net ev2 fs2 r2] d p assms(2)
  have fs': "fs' = fs2" and r2: "r2 = Inr ()" by simp_all
  have "n = ?n" if "matches_prefix n" "path_isfile fs' n" for n
  proof (rule ccontr)
    assume ne: "n \<noteq> ?n"
    then have "map_of fs' n = map_of fs1 n" using frame fs' by simp
    moreover have "map_of fs1 n = (if path_isfile fs n then None else map_of fs n)"
      using delete_old_releases_lookup [of "Some ?n" fs n] p that(1) ne by simp
    ultimately show False using that(2) by (auto simp: path_isfile_def split: if_splits)
  qed
  then show ?thesis using fin r2 fs' by blast
qed

lemmas start_simps = run_def Updater_init_def get_latest_release_def fetch_def github_repo_def
  sublist_code

section \<open>The claims\<close>

subsection \<open>Resolution\<close>

text \<open>
  C1, as the code has it. Resolution checks nothing about the asset list. Whenever the
  registry answers with status 200, the release it lists is returned as the candidate
  (the body of the latest endpoint on the stable channel, the first entry with the
  pre-release flag set on the pre-release channel), whatever its asset list, the empty one
  included; and a release is returned in no other case. When the candidate lists no
  asset, the run stops with an \<^verbatim>\<open>IndexError\<close> at \<^verbatim>\<open>['assets'][0]\<close>: its trace is
  the banner and the resolution, and the directory is as it was.
\<close>

theorem get_latest_release_listed_release:
  "(api_latest net = Response 200 r \<longrightarrow>
      get_latest_release False net = ([HttpGet ApiLatest], Some r))
   \<and> (api_releases net = Response 200 rs \<and> find prerelease rs = Some r \<longrightarrow>
      get_latest_release True net = ([HttpGet ApiReleases, Print FetchingPreRelease], Some r))
   \<and> (get_latest_release pre net = (ev, Some r) \<longrightarrow>
      (if pre then \<exists>rs'. api_releases net = Response 200 rs' \<and> find prerelease rs' = Some r
       else api_latest net = Response 200 r))
   \<and> (get_latest_release (prelease cli) net = (ev, Some r) \<and> assets r = []
        \<and> argv cli = a0 # as \<and> \<not> sublist ''_child.py'' a0 \<longrightarrow>
      run cli net fs = (Print (Banner github_repo) # ev, fs, Inl IndexError))"
proof (intro conjI impI)
  assume "api_latest net = Response 200 r"
  then show "get_latest_release False net = ([HttpGet ApiLatest], Some r)"
    by (simp add: get_latest_release_def fetch_ok)
next
  assume "api_releases net = Response 200 rs \<and> find prerelease rs = Some r"
  then show "get_latest_release True net = ([HttpGet ApiReleases, Print FetchingPreRelease], Some r)"
    by (simp add: get_latest_release_def fetch_ok)
next
  assume got: "get_latest_release pre net = (ev, Some r)"
  show "if pre then \<exists>rs'. api_releases net = Response 200 rs' \<and> find prerelease rs' = Some r
        else api_latest net = Response 200 r"
  proof (cases pre)
    case False
    then show ?thesis using got fetch_Some [of ApiLatest "api_latest net" ev r]
      by (simp add: get_latest_release_def)
  next
    case True
    obtain ev0 res where f: "fetch ApiReleases (api_releases net) = (ev0, res)"
      by (cases "fetch ApiReleases (api_releases net)")
    with True got obtain rs' where rs: "res = Some rs'" and fd: "find prerelease rs' = Some r"
      by (auto simp: get_latest_release_def split: option.splits)
    from f rs have "api_releases net = Response 200 rs'"
      using fetch_Some [of ApiReleases "api_releases net" ev0 rs'] by simp
    then show ?thesis using True fd by auto
  qed
next
  assume h: "get_latest_release (prelease cli) net = (ev, Some r) \<and> assets r = []
        \<and> argv cli = a0 # as \<and> \<not> sublist ''_child.py'' a0"
  then have res: "get_latest_release (prelease cli) net = (ev, Some r)" and e: "assets r = []"
    and a: "argv cli = a0 # as" and g: "\<not> sublist ''_child.py'' a0"
    by blast+
  have m: "main cli net (Some r) fs = ([], fs, Inl IndexError)"
    using e by (rule main_no_asset)
  have "run cli net fs = (Print (Banner github_repo) # ev @ [], fs, Inl IndexError)"
    by (rule run_started [OF a g res m])
  then show "run cli net fs = (Print (Banner github_repo) # ev, fs, Inl IndexError)" by simp
qed

text \<open>
  The theorem at a registry whose latest release and whose first pre-release list no
  asset, with an old release in the directory.
\<close>

theorem get_latest_release_listed_release_witness:
  "get_latest_release False
     \<lparr>api_latest = Response 200 (a_release ''v1'' False []),
      api_releases = Response 200 [a_release ''v1'' False [], a_release ''v2-beta'' True []],
      asset_get = answering Raised\<rparr>
   = ([HttpGet ApiLatest], Some (a_release ''v1'' False []))
   \<and> get_latest_release True
     \<lparr>api_latest = Response 200 (a_release ''v1'' False []),
      api_releases = Response 200 [a_release ''v1'' False [], a_release ''v2-beta'' True []],
      asset_get = answering Raised\<rparr>
   = ([HttpGet ApiReleases, Print FetchingPreRelease], Some (a_release ''v2-beta'' True []))
   \<and> assets (a_release ''v1'' False []) = []
   \<and> run \<lparr>prelease = False, argv = [''CollapseUpdater.exe'']\<rparr>
       \<lparr>api_latest = Response 200 (a_release ''v1'' False []),
        api_releases = Response 200 [a_release ''v1'' False [], a_release ''v2-beta'' True []],
        asset_get = answering Raised\<rparr>
       [(''CollapseLoader-1.exe'', File [1])]
     = ([Print (Banner ''dest4590/CollapseLoader''), HttpGet ApiLatest],
        [(''CollapseLoader-1.exe'', File [1])], Inl IndexError)"
proof -
  let ?r1 = "a_release ''v1'' False []"
  let ?r2 = "a_release ''v2-beta'' True []"
  let ?rs = "[?r1, ?r2]"
  let ?net = "\<lparr>api_latest = Response 200 ?r1, api_releases = Response 200 ?rs,
      asset_get = answering Raised\<rparr>"
  let ?cli = "\<lparr>prelease = False, argv = [''CollapseUpdater.exe'']\<rparr>"
  let ?fs = "[(''CollapseLoader-1.exe'', File [1])]"
  note stable = get_latest_release_listed_release
    [where net = ?net and r = ?r1 and pre = False and ev = "[HttpGet ApiLatest]" and cli = ?cli
       and ?a0.0 = "''CollapseUpdater.exe''" and as = "[]" and fs = ?fs]
  note beta = get_latest_release_listed_release [where net = ?net and r = ?r2 and rs = ?rs]
  have l: "api_latest ?net = Response 200 ?r1" by simp
  have p: "api_releases ?net = Response 200 ?rs \<and> find prerelease ?rs = Some ?r2"
    by (simp add: a_release_def)
  have e: "assets ?r1 = []" by (simp add: a_release_def)
  have g: "argv ?cli = [''CollapseUpdater.exe''] \<and> \<not> sublist ''_child.py'' ''CollapseUpdater.exe''"
    by (simp add: sublist_code)
  from stable l have s1: "get_latest_release False ?net = ([HttpGet ApiLatest], Some ?r1)"
    by blast
  from beta p have s2: "get_latest_release True ?net
      = ([HttpGet ApiReleases, Print FetchingPreRelease], Some ?r2)"
    by blast
  from stable s1 have "api_latest ?net = Response 200 ?r1" by simp
  from stable s1 e g have "run ?cli ?net ?fs
      = (Print (Banner github_repo) # [HttpGet ApiLatest], ?fs, Inl IndexError)"
    by simp
  then show ?thesis using s1 s2 e by (simp add: github_repo_def)
qed

text \<open>
  C1 as stated fails: on the stable channel, a successful response whose asset list is
  empty is returned as the candidate.
\<close>

theorem get_latest_release_no_assets_counterexample:
  "get_latest_release False
     \<lparr>api_latest = Response 200 (a_release ''v1'' False []), api_releases = Raised,
      asset_get = answering Raised\<rparr>
   = ([HttpGet ApiLatest], Some (a_release ''v1'' False []))
   \<and> assets (a_release ''v1'' False []) = []"
  by (simp add: get_latest_release_def fetch_def a_release_def)

text \<open>
  C4. A response with status 429 never reaches the rate-limit branch:
  \<^verbatim>\<open>raise_for_status\<close> raises first, and the \<^verbatim>\<open>except\<close> clause prints the generic
  fetch failure and the exception. On both channels.
\<close>

theorem get_latest_release_status_429:
  "get_latest_release False
     \<lparr>api_latest = Response 429 (a_release ''v1'' False []), api_releases = Raised,
      asset_get = answering Raised\<rparr>
   = ([HttpGet ApiLatest, Print FetchFailed, Print (ExnText (HTTPError 429))], None)
   \<and> get_latest_release True
     \<lparr>api_latest = Raised, api_releases = Response 429 [],
      asset_get = answering Raised\<rparr>
   = ([HttpGet ApiReleases, Print FetchFailed, Print (ExnText (HTTPError 429))], None)"
  by (simp add: get_latest_release_def fetch_def)

text \<open>
  C6. On the pre-release channel, with a successful response carrying the list \<open>rs\<close>:
  the entry at the least index whose pre-release flag is set is returned, and when no
  entry has the flag set the "No pre-release found" error is printed and the result is
  \<^verbatim>\<open>False\<close>.
\<close>

theorem get_latest_release_first_prerelease:
  assumes "api_releases net = Response 200 rs"
  shows "(\<forall>i < length rs. prerelease (rs ! i) \<and> (\<forall>j < i. \<not> prerelease (rs ! j)) \<longrightarrow>
            get_latest_release True net =
              ([HttpGet ApiReleases, Print FetchingPreRelease], Some (rs ! i)))
       \<and> ((\<forall>r \<in> set rs. \<not> prerelease r) \<longrightarrow>
            get_latest_release True net =
              ([HttpGet ApiReleases, Print FetchingPreRelease, Print NoPreReleaseFound], None))"
proof (intro conjI allI impI)
  fix i
  assume "i < length rs" and "prerelease (rs ! i) \<and> (\<forall>j < i. \<not> prerelease (rs ! j))"
  then have "find prerelease rs = Some (rs ! i)"
    unfolding find_Some_iff by blast
  then show "get_latest_release True net =
      ([HttpGet ApiReleases, Print FetchingPreRelease], Some (rs ! i))"
    using assms by (simp add: get_latest_release_def fetch_ok)
next
  assume "\<forall>r \<in> set rs. \<not> prerelease r"
  then have "find prerelease rs = None"
    unfolding find_None_iff by blast
  then show "get_latest_release True net =
      ([HttpGet ApiReleases, Print FetchingPreRelease, Print NoPreReleaseFound], None)"
    using assms by (simp add: get_latest_release_def fetch_ok)
qed

text \<open>
  The theorem at the list of the claim (flags false, true, true with the tags C, B, A: the
  entry tagged B is returned), and at a list without any pre-release.
\<close>

theorem get_latest_release_first_prerelease_witness:
  "get_latest_release True
     \<lparr>api_latest = Raised,
      api_releases = Response 200
        [a_release ''C'' False [], a_release ''B'' True [], a_release ''A'' True []],
      asset_get = answering Raised\<rparr>
   = ([HttpGet ApiReleases, Print FetchingPreRelease], Some (a_release ''B'' True []))
   \<and> get_latest_release True
     \<lparr>api_latest = Raised,
      api_releases = Response 200 [a_release ''C'' False [], a_release ''D'' False []],
      asset_get = answering Raised\<rparr>
   = ([HttpGet ApiReleases, Print FetchingPreRelease, Print NoPreReleaseFound], None)"
proof -
  let ?rs = "[a_release ''C'' False [], a_release ''B'' True [], a_release ''A'' True []]"
  let ?net = "\<lparr>api_latest = Raised, api_releases = Response 200 ?rs, asset_get = answering Raised\<rparr>"
  let ?qs = "[a_release ''C'' False [], a_release ''D'' False []]"
  let ?net' = "\<lparr>api_latest = Raised, api_releases = Response 200 ?qs, asset_get = answering Raised\<rparr>"
  have a: "api_releases ?net = Response 200 ?rs" by simp
  have b: "api_releases ?net' = Response 200 ?qs" by simp
  have i: "(1::nat) < length ?rs" by simp
  have first: "prerelease (?rs ! 1) \<and> (\<forall>j < 1. \<not> prerelease (?rs ! j))"
    by (simp add: a_release_def)
  have none: "\<forall>r \<in> set ?qs. \<not> prerelease r" by (simp add: a_release_def)
  from get_latest_release_first_prerelease [OF a] i first
  have "get_latest_release True ?net =
      ([HttpGet ApiReleases, Print FetchingPreRelease], Some (?rs ! 1))" by blast
  moreover from get_latest_release_first_prerelease [OF b] none
  have "get_latest_release True ?net' =
      ([HttpGet ApiReleases, Print FetchingPreRelease, Print NoPreReleaseFound], None)" by blast
  ultimately show ?thesis by simp
qed

subsection \<open>Download\<close>

text \<open>
  C2, as the code has it. When the transport breaks while the body is streamed, the
  exception leaves \<^verbatim>\<open>main\<close>, so this run launches nothing; but the file opened under
  the target name stays, holding the chunks received so far, so the target name exists
  afterwards, and a later run with the same candidate finds it, requests no download and
  launches it.
\<close>

theorem interrupted_download_leaves_partial_file:
  assumes "assets rel = a # rest" and "\<not> path_exists fs (asset_name a)"
    and "asset_get net (browser_download_url a) = Response status (cs, StreamBroken)"
    and "\<not> (400 \<le> status \<and> status < 600)"
    and "main cli net (Some rel) fs = (ev, fs', r)"
  shows "r = Inl StreamError \<and> (\<forall>c. System c \<notin> set ev)
       \<and> map_of fs' (asset_name a) = Some (File (concat cs))
       \<and> path_exists fs' (asset_name a)
       \<and> (\<exists>ev2 fs2. main cli net2 (Some rel) fs' = (ev2, fs2, Inr ())
             \<and> (\<forall>u. HttpGet (AssetUrl u) \<notin> set ev2)
             \<and> System (join_space (asset_name a # drop 1 (argv cli))) \<in> set ev2
             \<and> map_of fs2 (asset_name a) = Some (File (concat cs)))"
proof -
  let ?n = "asset_name a"
  obtain ev1 fs1 where p: "delete_old_releases (Some ?n) fs = (ev1, fs1)"
    by (cases "delete_old_releases (Some ?n) fs")
  have nosys: "\<forall>c. System c \<notin> set ev1"
    using delete_old_releases_no_request(3) [of _ "Some ?n" fs] p by simp
  have absent: "map_of fs1 ?n \<noteq> Some Dir"
    using delete_old_releases_keeps_target [of ?n fs] p assms(2) by (simp add: path_exists_def)
  from download_streamed [OF assms(1,3,4) absent, of "prelease cli"]
  obtain fsd where d: "download_latest_release (prelease cli) net (Some rel) fs1 =
      ([Print (if prelease cli then DownloadingPreRelease ?n else DownloadingRelease ?n),
        HttpGet (AssetUrl (browser_download_url a)), OpenWrite ?n]
       @ map (\<lambda>c. Advance (length c)) cs, fsd, Inl StreamError)"
    and m: "map_of fsd = (map_of fs1)(?n \<mapsto> File (concat cs))"
    by auto
  from main_target_absent [OF assms(1,2), of cli net _ fsd "Inl StreamError"] d p assms(5)
  have ev: "ev = ev1 @ [Exists ?n False,
        Print (if prelease cli then DownloadingPreRelease ?n else DownloadingRelease ?n),
        HttpGet (AssetUrl (browser_download_url a)), OpenWrite ?n]
       @ map (\<lambda>c. Advance (length c)) cs" and fs': "fs' = fsd" and r: "r = Inl StreamError"
    by simp_all
  have here: "map_of fs' ?n = Some (File (concat cs))" using m fs' by simp
  then have ex: "path_exists fs' ?n" by (simp add: path_exists_def)
  have sys: "\<forall>c. System c \<notin> set ev" using ev nosys by auto
  have later: "main cli net2 (Some rel) fs' =
      (fst (delete_old_releases (Some ?n) fs')
         @ [Exists ?n True, Print AlreadyDownloaded, Print Starting,
            System (join_space (command ?n cli))],
       snd (delete_old_releases (Some ?n) fs'), Inr ())"
    by (rule main_target_present [OF assms(1) ex])
  have "\<forall>u. HttpGet (AssetUrl u) \<notin> set (fst (delete_old_releases (Some ?n) fs'))"
    using delete_old_releases_no_request(1) by blast
  moreover have "map_of (snd (delete_old_releases (Some ?n) fs')) ?n = Some (File (concat cs))"
    using here by (simp add: delete_old_releases_keeps_target)
  ultimately show ?thesis using r sys here ex later by (simp add: command_def)
qed

text \<open>The theorem at a stream that breaks after two chunks, in an empty directory.\<close>

theorem interrupted_download_leaves_partial_file_witness:
  "main \<lparr>prelease = False, argv = [''CollapseUpdater.exe'']\<rparr>
     \<lparr>api_latest = Raised, api_releases = Raised,
      asset_get = answering (Response 200 ([[1, 2], [3]], StreamBroken))\<rparr>
     (Some (a_release ''v2'' False [an_asset ''CollapseLoader-2.exe''])) []
   = ([Exists ''CollapseLoader-2.exe'' False,
       Print (DownloadingRelease ''CollapseLoader-2.exe''),
       HttpGet (AssetUrl ''https://github.com/dl/CollapseLoader-2.exe''),
       OpenWrite ''CollapseLoader-2.exe'', Advance 2, Advance 1],
      [(''CollapseLoader-2.exe'', File [1, 2, 3])], Inl StreamError)
   \<and> path_exists [(''CollapseLoader-2.exe'', File [1, 2, 3])] ''CollapseLoader-2.exe''
   \<and> System ''CollapseLoader-2.exe'' \<in> set (fst
       (main \<lparr>prelease = False, argv = [''CollapseUpdater.exe'']\<rparr>
          \<lparr>api_latest = Raised, api_releases = Raised, asset_get = answering Raised\<rparr>
          (Some (a_release ''v2'' False [an_asset ''CollapseLoader-2.exe'']))
          [(''CollapseLoader-2.exe'', File [1, 2, 3])]))"
proof -
  let ?a = "an_asset ''CollapseLoader-2.exe''"
  let ?rel = "a_release ''v2'' False [?a]"
  let ?cli = "\<lparr>prelease = False, argv = [''CollapseUpdater.exe'']\<rparr>"
  let ?net = "\<lparr>api_latest = Raised, api_releases = Raised,
      asset_get = answering (Response 200 ([[1, 2], [3]], StreamBroken))\<rparr>"
  let ?net2 = "\<lparr>api_latest = Raised, api_releases = Raised, asset_get = answering Raised\<rparr>"
  let ?fs' = "[(''CollapseLoader-2.exe'', File [1, 2, 3])]"
  have h1: "assets ?rel = [?a]" by (simp add: a_release_def)
  have h2: "\<not> path_exists [] (asset_name ?a)" by (simp add: path_exists_def)
  have h3: "asset_get ?net (browser_download_url ?a) = Response 200 ([[1, 2], [3]], StreamBroken)"
    by (simp add: answering_def)
  have h4: "\<not> (400 \<le> (200::nat) \<and> (200::nat) < 600)" by simp
  have h5: "main ?cli ?net (Some ?rel) [] =
     ([Exists ''CollapseLoader-2.exe'' False,
       Print (DownloadingRelease ''CollapseLoader-2.exe''),
       HttpGet (AssetUrl ''https://github.com/dl/CollapseLoader-2.exe''),
       OpenWrite ''CollapseLoader-2.exe'', Advance 2, Advance 1], ?fs', Inl StreamError)"
    by (simp add: run_simps)
  from interrupted_download_leaves_partial_file [OF h1 h2 h3 h4 h5, of ?net2]
  have "path_exists ?fs' (asset_name ?a)"
    and "\<exists>ev2 fs2. main ?cli ?net2 (Some ?rel) ?fs' = (ev2, fs2, Inr ())
       \<and> System (join_space (asset_name ?a # drop 1 (argv ?cli))) \<in> set ev2"
    by blast+
  then show ?thesis using h5 by (auto simp: an_asset_def)
qed

text \<open>
  C2 as stated fails: after a download that broke after two chunks, the target name
  exists, with the three bytes received.
\<close>

theorem download_interrupted_counterexample:
  "download_latest_release False
     \<lparr>api_latest = Raised, api_releases = Raised,
      asset_get = answering (Response 200 ([[1, 2], [3]], StreamBroken))\<rparr>
     (Some (a_release ''v2'' False [an_asset ''CollapseLoader-2.exe''])) []
   = ([Print (DownloadingRelease ''CollapseLoader-2.exe''),
       HttpGet (AssetUrl ''https://github.com/dl/CollapseLoader-2.exe''),
       OpenWrite ''CollapseLoader-2.exe'', Advance 2, Advance 1],
      [(''CollapseLoader-2.exe'', File [1, 2, 3])], Inl StreamError)
   \<and> path_exists [(''CollapseLoader-2.exe'', File [1, 2, 3])] ''CollapseLoader-2.exe''"
  by (simp add: run_simps)

subsection \<open>Handoff\<close>

text \<open>
  C3, as the code has it. A run that reaches the handoff ends with
  \<^verbatim>\<open>os.system\<close> on the target name followed by all of \<^verbatim>\<open>sys.argv[1:]\<close>, in order
  and joined by single spaces, and issues no other \<^verbatim>\<open>os.system\<close>; nothing is taken
  out, so a \<^verbatim>\<open>--prelease\<close> on the command line is passed on with the rest.
\<close>

theorem main_forwards_all_arguments:
  assumes "main cli net (Some rel) fs = (ev, fs', Inr ())"
  shows "\<exists>a rest ev0. assets rel = a # rest
       \<and> ev = ev0 @ [Print Starting, System (join_space (asset_name a # drop 1 (argv cli)))]
       \<and> (\<forall>c. System c \<notin> set ev0)
       \<and> command (asset_name a) cli = asset_name a # drop 1 (argv cli)"
proof -
  obtain a rest where assets: "assets rel = a # rest"
    using assms main_no_asset [of rel cli net fs] by (cases "assets rel") auto
  let ?n = "asset_name a"
  let ?hand = "[Print Starting, System (join_space (?n # drop 1 (argv cli)))]"
  obtain ev1 fs1 where p: "delete_old_releases (Some ?n) fs = (ev1, fs1)"
    by (cases "delete_old_releases (Some ?n) fs")
  have nosys: "\<forall>c. System c \<notin> set ev1"
    using delete_old_releases_no_request(3) [of _ "Some ?n" fs] p by simp
  have "\<exists>ev0. ev = ev0 @ ?hand \<and> (\<forall>c. System c \<notin> set ev0)"
  proof (cases "path_exists fs ?n")
    case True
    from main_target_present [OF assets True, of cli net] p assms
    have "ev = (ev1 @ [Exists ?n True, Print AlreadyDownloaded]) @ ?hand"
      by (simp add: command_def)
    moreover have "\<forall>c. System c \<notin> set (ev1 @ [Exists ?n True, Print AlreadyDownloaded])"
      using nosys by simp
    ultimately show ?thesis by blast
  next
    case False
    from download_summary [OF assets, of "prelease cli" net fs1]
    obtain ev2 fs2 r2 where d: "download_latest_release (prelease cli) net (Some rel) fs1 = (ev2, fs2, r2)"
      and ns: "\<forall>c. System c \<notin> set ev2" by blast
    from main_target_absent [OF assets False, of cli net ev2 fs2 r2] d p assms
    have "ev = (ev1 @ Exists ?n False # ev2) @ ?hand" by (cases r2) (simp_all add: command_def)
    moreover have "\<forall>c. System c \<notin> set (ev1 @ Exists ?n False # ev2)" using nosys ns by simp
    ultimately show ?thesis by blast
  qed
  then obtain ev0 where ev0: "ev = ev0 @ ?hand" "\<forall>c. System c \<notin> set ev0" by blast
  have cmd: "command ?n cli = ?n # drop 1 (argv cli)" by (simp add: command_def)
  show ?thesis
    by (intro exI [of _ a] exI [of _ rest] exI [of _ ev0] conjI assets ev0 cmd)
qed

text \<open>
  The theorem at three arguments, the launcher's flag among them, the target already
  present.
\<close>

theorem main_forwards_all_arguments_witness:
  "main \<lparr>prelease = True, argv = [''CollapseUpdater.exe'', ''--nogui'', ''--prelease'', ''-v'']\<rparr>
     \<lparr>api_latest = Raised, api_releases = Raised, asset_get = answering Raised\<rparr>
     (Some (a_release ''v2'' True [an_asset ''CollapseLoader-2.exe'']))
     [(''CollapseLoader-2.exe'', File [2])]
   = ([Exists ''CollapseLoader-2.exe'' True, Print AlreadyDownloaded]
        @ [Print Starting, System ''CollapseLoader-2.exe --nogui --prelease -v''],
      [(''CollapseLoader-2.exe'', File [2])], Inr ())"
proof -
  let ?cli = "\<lparr>prelease = True, argv = [''CollapseUpdater.exe'', ''--nogui'', ''--prelease'', ''-v'']\<rparr>"
  let ?net = "\<lparr>api_latest = Raised, api_releases = Raised, asset_get = answering Raised\<rparr>"
  let ?a = "an_asset ''CollapseLoader-2.exe''"
  let ?rel = "a_release ''v2'' True [?a]"
  let ?fs = "[(''CollapseLoader-2.exe'', File [2])]"
  obtain ev fs' r where m: "main ?cli ?net (Some ?rel) ?fs = (ev, fs', r)"
    by (cases "main ?cli ?net (Some ?rel) ?fs")
  have p: "path_exists ?fs (asset_name ?a)" by (simp add: path_exists_def an_asset_def)
  have as: "assets ?rel = [?a]" by (simp add: a_release_def)
  have pr: "delete_old_releases (Some (asset_name ?a)) ?fs = ([], ?fs)"
    by (simp add: run_simps)
  have r: "r = Inr ()" and fs': "fs' = ?fs"
    and pre: "ev = [Exists (asset_name ?a) True, Print AlreadyDownloaded, Print Starting,
               System (join_space (command (asset_name ?a) ?cli))]"
    using main_target_present [OF as p, of ?cli ?net] m pr by simp_all
  from main_forwards_all_arguments [OF m [unfolded r]] as
  obtain ev0 where "ev = ev0 @ [Print Starting,
      System (join_space (asset_name ?a # drop 1 (argv ?cli)))]"
    by auto
  then have "ev = [Exists ''CollapseLoader-2.exe'' True, Print AlreadyDownloaded]
        @ [Print Starting, System ''CollapseLoader-2.exe --nogui --prelease -v'']"
    using pre by (simp add: an_asset_def command_def)
  then show ?thesis using m r fs' by simp
qed

text \<open>
  C3 as stated fails: started with \<^verbatim>\<open>--prelease --nogui\<close>, the launcher passes both
  to the launched program, the flag \<^verbatim>\<open>--prelease\<close> included.
\<close>

theorem main_forwards_flag_counterexample:
  "main \<lparr>prelease = True, argv = [''CollapseUpdater.exe'', ''--prelease'', ''--nogui'']\<rparr>
     \<lparr>api_latest = Raised, api_releases = Raised, asset_get = answering Raised\<rparr>
     (Some (a_release ''v2'' True [an_asset ''CollapseLoader-2.exe'']))
     [(''CollapseLoader-2.exe'', File [2])]
   = ([Exists ''CollapseLoader-2.exe'' True, Print AlreadyDownloaded, Print Starting,
       System ''CollapseLoader-2.exe --prelease --nogui''],
      [(''CollapseLoader-2.exe'', File [2])], Inr ())
   \<and> command ''CollapseLoader-2.exe''
         \<lparr>prelease = True, argv = [''CollapseUpdater.exe'', ''--prelease'', ''--nogui'']\<rparr>
       = [''CollapseLoader-2.exe'', ''--prelease'', ''--nogui'']
   \<and> ''--prelease'' \<in> set (drop 1 (command ''CollapseLoader-2.exe''
         \<lparr>prelease = True, argv = [''CollapseUpdater.exe'', ''--prelease'', ''--nogui'']\<rparr>))"
  by (simp add: run_simps)

subsection \<open>Pruning\<close>

text \<open>
  C5. After \<^verbatim>\<open>delete_old_releases(keepName)\<close> returns, every regular file whose name starts
  with \<^verbatim>\<open>CollapseLoader\<close> is the file \<open>keepName\<close>, so at most one such file remains;
  and an entry named \<open>keepName\<close> that existed before the call exists after it, unchanged.
\<close>

theorem delete_old_releases_at_most_one:
  assumes "delete_old_releases (Some keepName) fs = (ev, fs')"
  shows "{n. matches_prefix n \<and> path_isfile fs' n} \<subseteq> {keepName}
       \<and> card {n. matches_prefix n \<and> path_isfile fs' n} \<le> 1
       \<and> (path_exists fs keepName \<longrightarrow>
            path_exists fs' keepName \<and> map_of fs' keepName = map_of fs keepName)"
proof -
  have look: "map_of fs' n =
      (if matches_prefix n \<and> n \<noteq> keepName \<and> path_isfile fs n then None else map_of fs n)" for n
    using delete_old_releases_lookup [of "Some keepName" fs n] assms by auto
  have sub: "{n. matches_prefix n \<and> path_isfile fs' n} \<subseteq> {keepName}"
    by (auto simp: path_isfile_def look split: if_splits)
  have "card {n. matches_prefix n \<and> path_isfile fs' n} \<le> card {keepName}"
    by (rule card_mono [OF _ sub]) simp
  then have "card {n. matches_prefix n \<and> path_isfile fs' n} \<le> 1" by simp
  moreover have "map_of fs' keepName = map_of fs keepName" by (simp add: look)
  ultimately show ?thesis using sub by (simp add: path_exists_def)
qed

text \<open>The theorem at a directory of three old releases and one other file.\<close>

theorem delete_old_releases_at_most_one_witness:
  "delete_old_releases (Some ''CollapseLoader-2.exe'')
     [(''CollapseLoader-1.exe'', File [1]), (''CollapseLoader-2.exe'', File [2]),
      (''CollapseLoader-0.exe'', File [0]), (''notes.txt'', File [7])]
   = ([Remove ''CollapseLoader-1.exe'', Print (DeletedOldRelease ''CollapseLoader-1.exe''),
       Remove ''CollapseLoader-0.exe'', Print (DeletedOldRelease ''CollapseLoader-0.exe'')],
      [(''CollapseLoader-2.exe'', File [2]), (''notes.txt'', File [7])])
   \<and> path_exists [(''CollapseLoader-1.exe'', File [1]), (''CollapseLoader-2.exe'', File [2]),
      (''CollapseLoader-0.exe'', File [0]), (''notes.txt'', File [7])] ''CollapseLoader-2.exe''
   \<and> {n. matches_prefix n \<and> path_isfile [(''CollapseLoader-2.exe'', File [2]), (''notes.txt'', File [7])] n}
        \<subseteq> {''CollapseLoader-2.exe''}
   \<and> card {n. matches_prefix n \<and> path_isfile [(''CollapseLoader-2.exe'', File [2]), (''notes.txt'', File [7])] n} \<le> 1
   \<and> path_exists [(''CollapseLoader-2.exe'', File [2]), (''notes.txt'', File [7])] ''CollapseLoader-2.exe''"
proof -
  have run: "delete_old_releases (Some ''CollapseLoader-2.exe'')
     [(''CollapseLoader-1.exe'', File [1]), (''CollapseLoader-2.exe'', File [2]),
      (''CollapseLoader-0.exe'', File [0]), (''notes.txt'', File [7])]
   = ([Remove ''CollapseLoader-1.exe'', Print (DeletedOldRelease ''CollapseLoader-1.exe''),
       Remove ''CollapseLoader-0.exe'', Print (DeletedOldRelease ''CollapseLoader-0.exe'')],
      [(''CollapseLoader-2.exe'', File [2]), (''notes.txt'', File [7])])"
    by (simp add: delete_old_releases_def glob_old_releases_def matches_prefix_def
        release_prefix_def path_isfile_def os_remove_def)
  have ex: "path_exists [(''CollapseLoader-1.exe'', File [1]), (''CollapseLoader-2.exe'', File [2]),
      (''CollapseLoader-0.exe'', File [0]), (''notes.txt'', File [7])] ''CollapseLoader-2.exe''"
    by (simp add: path_exists_def)
  from delete_old_releases_at_most_one [OF run] run ex show ?thesis by simp
qed

text \<open>
  C10. \<^verbatim>\<open>delete_old_releases\<close> removes regular files only: an entry that exists and is not
  a regular file (a directory), whatever its name and whatever \<open>keepName\<close> is, is still
  there afterwards, unchanged, and no \<^verbatim>\<open>os.remove\<close> was issued for it.
\<close>

theorem delete_old_releases_only_files:
  assumes "delete_old_releases keep fs = (ev, fs')"
    and "path_exists fs n" and "\<not> path_isfile fs n"
  shows "map_of fs' n = map_of fs n \<and> path_exists fs' n \<and> \<not> path_isfile fs' n \<and> Remove n \<notin> set ev"
proof -
  have "map_of fs' n = map_of fs n"
    using delete_old_releases_lookup [of keep fs n] assms by simp
  moreover have "Remove n \<notin> set ev"
    using delete_old_releases_events [of "Remove n" keep fs] assms by auto
  ultimately show ?thesis using assms by (simp add: path_exists_def path_isfile_def)
qed

text \<open>The theorem at a directory named like a release, next to an old release file.\<close>

theorem delete_old_releases_only_files_witness:
  "delete_old_releases None
     [(''CollapseLoader-old'', Dir), (''CollapseLoader-1.exe'', File [1])]
   = ([Remove ''CollapseLoader-1.exe'', Print (DeletedOldRelease ''CollapseLoader-1.exe'')],
      [(''CollapseLoader-old'', Dir)])
   \<and> matches_prefix ''CollapseLoader-old''
   \<and> path_exists [(''CollapseLoader-old'', Dir), (''CollapseLoader-1.exe'', File [1])] ''CollapseLoader-old''
   \<and> \<not> path_isfile [(''CollapseLoader-old'', Dir), (''CollapseLoader-1.exe'', File [1])] ''CollapseLoader-old''
   \<and> map_of [(''CollapseLoader-old'', Dir)] ''CollapseLoader-old'' = Some Dir
   \<and> Remove ''CollapseLoader-old'' \<notin> set [Remove ''CollapseLoader-1.exe'', Print (DeletedOldRelease ''CollapseLoader-1.exe'')]"
proof -
  have run: "delete_old_releases None
     [(''CollapseLoader-old'', Dir), (''CollapseLoader-1.exe'', File [1])]
   = ([Remove ''CollapseLoader-1.exe'', Print (DeletedOldRelease ''CollapseLoader-1.exe'')],
      [(''CollapseLoader-old'', Dir)])"
    by (simp add: delete_old_releases_def glob_old_releases_def matches_prefix_def
        release_prefix_def path_isfile_def os_remove_def)
  have ex: "path_exists [(''CollapseLoader-old'', Dir), (''CollapseLoader-1.exe'', File [1])] ''CollapseLoader-old''"
    by (simp add: path_exists_def)
  have nf: "\<not> path_isfile [(''CollapseLoader-old'', Dir), (''CollapseLoader-1.exe'', File [1])] ''CollapseLoader-old''"
    by (simp add: path_isfile_def)
  have mp: "matches_prefix ''CollapseLoader-old''"
    by (simp add: matches_prefix_def release_prefix_def)
  from delete_old_releases_only_files [OF run ex nf] run ex nf mp show ?thesis by simp
qed

subsection \<open>The sequence of a run\<close>

text \<open>
  C7, as the code has it. In a run with a resolved release that lists an asset, the trace
  of \<^verbatim>\<open>main\<close> is the whole trace of \<^verbatim>\<open>delete_old_releases(targetName)\<close> (removals and
  their reports only), then the presence check, answered on the pruned directory, then
  what holds no removal and no further check: the "already downloaded" report and the
  handoff, or the download starting with its request. Whether or not the target is
  present, every other regular file named \<^verbatim>\<open>CollapseLoader*\<close> was removed before the
  check and is absent from the directory at the check and at the end.
\<close>

theorem main_prunes_before_presence_check:
  assumes "assets rel = a # rest"
    and "delete_old_releases (Some (asset_name a)) fs = (ev1, fs1)"
    and "main cli net (Some rel) fs = (ev, fs', r)"
  shows "(\<exists>ev2. ev = ev1 @ Exists (asset_name a) (path_exists fs1 (asset_name a)) # ev2
            \<and> (\<forall>n. Remove n \<notin> set ev2) \<and> (\<forall>n b. Exists n b \<notin> set ev2)
            \<and> (if path_exists fs (asset_name a)
                then ev2 = [Print AlreadyDownloaded, Print Starting,
                            System (join_space (asset_name a # drop 1 (argv cli)))]
                else \<exists>ev3. ev2 =
                       Print (if prelease cli then DownloadingPreRelease (asset_name a)
                              else DownloadingRelease (asset_name a))
                       # HttpGet (AssetUrl (browser_download_url a)) # ev3))
       \<and> (\<forall>e \<in> set ev1. \<exists>n. e = Remove n \<or> e = Print (DeletedOldRelease n))
       \<and> (\<forall>n. matches_prefix n \<and> n \<noteq> asset_name a \<and> path_isfile fs n \<longrightarrow>
              Remove n \<in> set ev1 \<and> \<not> path_exists fs1 n \<and> \<not> path_exists fs' n)"
proof -
  let ?t = "asset_name a"
  have same: "path_exists fs1 ?t \<longleftrightarrow> path_exists fs ?t"
    using path_exists_after_delete [of ?t fs] assms(2) by simp
  have only: "\<forall>e \<in> set ev1. \<exists>n. e = Remove n \<or> e = Print (DeletedOldRelease n)"
    using delete_old_releases_events [of _ "Some ?t" fs] assms(2) by auto
  have gone: "Remove n \<in> set ev1 \<and> \<not> path_exists fs1 n"
    if "matches_prefix n" "n \<noteq> ?t" "path_isfile fs n" for n
    using delete_old_releases_removes [of n "Some ?t" fs]
      delete_old_releases_lookup [of "Some ?t" fs n] that assms(2)
    by (simp add: path_exists_def)
  show ?thesis
  proof (cases "path_exists fs ?t")
    case True
    from main_target_present [OF assms(1) True, of cli net] assms(2,3)
    have "ev = ev1 @ Exists ?t True # [Print AlreadyDownloaded, Print Starting,
                      System (join_space (?t # drop 1 (argv cli)))]"
      and "fs' = fs1"
      by (simp_all add: command_def)
    then show ?thesis using True same only gone by auto
  next
    case False
    from download_summary [OF assms(1), of "prelease cli" net fs1]
    obtain ev2 fs2 r2 where d: "download_latest_release (prelease cli) net (Some rel) fs1 = (ev2, fs2, r2)"
      and nr: "\<forall>k. Remove k \<notin> set ev2"
      and nx: "\<forall>k b. Exists k b \<notin> set ev2"
      and frame: "\<forall>k. k \<noteq> ?t \<longrightarrow> map_of fs2 k = map_of fs1 k"
      and starts: "\<exists>ev'. ev2 = Print (if prelease cli then DownloadingPreRelease ?t
                              else DownloadingRelease ?t)
                       # HttpGet (AssetUrl (browser_download_url a)) # ev'" by blast
    let ?hand = "case r2 of Inl e \<Rightarrow> []
          | Inr u \<Rightarrow> [Print Starting, System (join_space (command ?t cli))]"
    let ?tail = "ev2 @ ?hand"
    from main_target_absent [OF assms(1) False, of cli net ev2 fs2 r2] d assms(2,3)
    have ev: "ev = ev1 @ Exists ?t False # ?tail" and fs': "fs' = fs2" by simp_all
    have t1: "\<forall>n. Remove n \<notin> set ?tail" using nr by (cases r2) auto
    have t2: "\<forall>n b. Exists n b \<notin> set ?tail" using nx by (cases r2) auto
    from starts obtain ev' where "ev2 = Print (if prelease cli then DownloadingPreRelease ?t
                              else DownloadingRelease ?t)
                       # HttpGet (AssetUrl (browser_download_url a)) # ev'" by blast
    then have t3: "\<exists>ev3. ?tail = Print (if prelease cli then DownloadingPreRelease ?t
                              else DownloadingRelease ?t)
                       # HttpGet (AssetUrl (browser_download_url a)) # ev3" by simp
    have t4: "\<not> path_exists fs' n"
      if "matches_prefix n" "n \<noteq> ?t" "path_isfile fs n" for n
      using gone [OF that] frame that(2) fs' by (simp add: path_exists_def)
    have first: "\<exists>ev2. ev = ev1 @ Exists ?t (path_exists fs1 ?t) # ev2
            \<and> (\<forall>n. Remove n \<notin> set ev2) \<and> (\<forall>n b. Exists n b \<notin> set ev2)
            \<and> (if path_exists fs ?t
                then ev2 = [Print AlreadyDownloaded, Print Starting,
                            System (join_space (?t # drop 1 (argv cli)))]
                else \<exists>ev3. ev2 =
                       Print (if prelease cli then DownloadingPreRelease ?t
                              else DownloadingRelease ?t)
                       # HttpGet (AssetUrl (browser_download_url a)) # ev3)"
      using ev t1 t2 t3 False same by (intro exI [of _ ?tail]) simp
    show ?thesis using first only gone t4 by blast
  qed
qed

text \<open>
  The theorem at a run that downloads nothing and at a run that downloads: the old release
  is removed before the check in both.
\<close>

theorem main_prunes_before_presence_check_witness:
  "main \<lparr>prelease = False, argv = [''CollapseUpdater.exe'']\<rparr>
     \<lparr>api_latest = Raised, api_releases = Raised, asset_get = answering Raised\<rparr>
     (Some (a_release ''v2'' False [an_asset ''CollapseLoader-2.exe'']))
     [(''CollapseLoader-1.exe'', File [1]), (''CollapseLoader-2.exe'', File [2])]
   = ([Remove ''CollapseLoader-1.exe'', Print (DeletedOldRelease ''CollapseLoader-1.exe''),
       Exists ''CollapseLoader-2.exe'' True,
       Print AlreadyDownloaded, Print Starting, System ''CollapseLoader-2.exe''],
      [(''CollapseLoader-2.exe'', File [2])], Inr ())
   \<and> main \<lparr>prelease = False, argv = [''CollapseUpdater.exe'']\<rparr>
     \<lparr>api_latest = Raised, api_releases = Raised,
      asset_get = answering (Response 200 ([[1, 2]], EndOfStream))\<rparr>
     (Some (a_release ''v2'' False [an_asset ''CollapseLoader-2.exe'']))
     [(''CollapseLoader-1.exe'', File [1])]
   = ([Remove ''CollapseLoader-1.exe'', Print (DeletedOldRelease ''CollapseLoader-1.exe''),
       Exists ''CollapseLoader-2.exe'' False,
       Print (DownloadingRelease ''CollapseLoader-2.exe''),
       HttpGet (AssetUrl ''https://github.com/dl/CollapseLoader-2.exe''),
       OpenWrite ''CollapseLoader-2.exe'', Advance 2,
       Print (DownloadedSuccessfully ''CollapseLoader-2.exe''),
       Print Starting, System ''CollapseLoader-2.exe''],
      [(''CollapseLoader-2.exe'', File [1, 2])], Inr ())
   \<and> matches_prefix ''CollapseLoader-1.exe''
   \<and> path_isfile [(''CollapseLoader-1.exe'', File [1])] ''CollapseLoader-1.exe''
   \<and> \<not> path_exists [(''CollapseLoader-2.exe'', File [2])] ''CollapseLoader-1.exe''
   \<and> \<not> path_exists [(''CollapseLoader-2.exe'', File [1, 2])] ''CollapseLoader-1.exe''"
proof -
  let ?a = "an_asset ''CollapseLoader-2.exe''"
  let ?rel = "a_release ''v2'' False [?a]"
  let ?cli = "\<lparr>prelease = False, argv = [''CollapseUpdater.exe'']\<rparr>"
  let ?netA = "\<lparr>api_latest = Raised, api_releases = Raised, asset_get = answering Raised\<rparr>"
  let ?netB = "\<lparr>api_latest = Raised, api_releases = Raised,
      asset_get = answering (Response 200 ([[1, 2]], EndOfStream))\<rparr>"
  let ?fsA = "[(''CollapseLoader-1.exe'', File [1]), (''CollapseLoader-2.exe'', File [2])]"
  let ?fsB = "[(''CollapseLoader-1.exe'', File [1])]"
  let ?ev1 = "[Remove ''CollapseLoader-1.exe'', Print (DeletedOldRelease ''CollapseLoader-1.exe'')]"
  have h1: "assets ?rel = [?a]" by (simp add: a_release_def)
  have pA: "delete_old_releases (Some (asset_name ?a)) ?fsA = (?ev1, [(''CollapseLoader-2.exe'', File [2])])"
    by (simp add: run_simps)
  have pB: "delete_old_releases (Some (asset_name ?a)) ?fsB = (?ev1, [])"
    by (simp add: run_simps)
  have mA: "main ?cli ?netA (Some ?rel) ?fsA
      = (?ev1 @ [Exists ''CollapseLoader-2.exe'' True,
                 Print AlreadyDownloaded, Print Starting, System ''CollapseLoader-2.exe''],
         [(''CollapseLoader-2.exe'', File [2])], Inr ())"
    by (simp add: run_simps)
  have mB: "main ?cli ?netB (Some ?rel) ?fsB
      = (?ev1 @ [Exists ''CollapseLoader-2.exe'' False,
           Print (DownloadingRelease ''CollapseLoader-2.exe''),
           HttpGet (AssetUrl ''https://github.com/dl/CollapseLoader-2.exe''),
           OpenWrite ''CollapseLoader-2.exe'', Advance 2,
           Print (DownloadedSuccessfully ''CollapseLoader-2.exe''),
           Print Starting, System ''CollapseLoader-2.exe''],
         [(''CollapseLoader-2.exe'', File [1, 2])], Inr ())"
    by (simp add: run_simps)
  have staleA: "matches_prefix ''CollapseLoader-1.exe'' \<and> ''CollapseLoader-1.exe'' \<noteq> asset_name ?a
      \<and> path_isfile ?fsA ''CollapseLoader-1.exe''"
    by (simp add: matches_prefix_def release_prefix_def path_isfile_def an_asset_def)
  have staleB: "matches_prefix ''CollapseLoader-1.exe'' \<and> ''CollapseLoader-1.exe'' \<noteq> asset_name ?a
      \<and> path_isfile ?fsB ''CollapseLoader-1.exe''"
    by (simp add: matches_prefix_def release_prefix_def path_isfile_def an_asset_def)
  from main_prunes_before_presence_check [OF h1 pA mA] staleA
  have goneA: "\<not> path_exists [(''CollapseLoader-2.exe'', File [2])] ''CollapseLoader-1.exe''"
    by blast
  from main_prunes_before_presence_check [OF h1 pB mB] staleB
  have goneB: "\<not> path_exists [(''CollapseLoader-2.exe'', File [1, 2])] ''CollapseLoader-1.exe''"
    by blast
  show ?thesis using mA mB staleB goneA goneB by simp
qed

text \<open>
  C7 as stated fails for a resolved release that lists no asset: the run stops at
  \<^verbatim>\<open>['assets'][0]\<close>, before \<^verbatim>\<open>delete_old_releases\<close> is reached, and the old
  release stays in the directory.
\<close>

theorem main_prunes_counterexample:
  "get_latest_release False
     \<lparr>api_latest = Response 200 (a_release ''v3'' False []), api_releases = Raised,
      asset_get = answering Raised\<rparr>
   = ([HttpGet ApiLatest], Some (a_release ''v3'' False []))
   \<and> run \<lparr>prelease = False, argv = [''CollapseUpdater.exe'']\<rparr>
       \<lparr>api_latest = Response 200 (a_release ''v3'' False []), api_releases = Raised,
        asset_get = answering Raised\<rparr>
       [(''CollapseLoader-0.exe'', File [0])]
     = ([Print (Banner ''dest4590/CollapseLoader''), HttpGet ApiLatest],
        [(''CollapseLoader-0.exe'', File [0])], Inl IndexError)
   \<and> matches_prefix ''CollapseLoader-0.exe''
   \<and> path_isfile [(''CollapseLoader-0.exe'', File [0])] ''CollapseLoader-0.exe''"
  by (simp add: start_simps run_simps)

text \<open>
  C8, as the code has it. In a run with a resolved release that lists an asset, the
  presence check \<^verbatim>\<open>os.path.exists(targetName)\<close> is answered on the pruned directory,
  where it is true exactly when it was true before pruning (for a directory under that
  name as well as for a file). When it is true, the run reports "Latest version already
  downloaded" and goes to the handoff: no request, no file opened, the pruned directory
  left as it is. When it is false, the download is performed: the asset's address is
  requested right after the check, and if the server answers without an error status and
  the stream ends normally, the file under the target name holds the chunks received in
  order, every other entry is as pruning left it, and the handoff follows. No download is
  requested and no file opened in any other case.
\<close>

theorem main_downloads_iff_absent:
  assumes "assets rel = a # rest"
    and "delete_old_releases (Some (asset_name a)) fs = (ev1, fs1)"
    and "main cli net (Some rel) fs = (ev, fs', r)"
  shows "(path_exists fs1 (asset_name a) \<longleftrightarrow> path_exists fs (asset_name a))
       \<and> ((\<exists>u. HttpGet (AssetUrl u) \<in> set ev) \<longleftrightarrow> \<not> path_exists fs1 (asset_name a))
       \<and> ((\<exists>n. OpenWrite n \<in> set ev) \<longrightarrow> \<not> path_exists fs1 (asset_name a))
       \<and> (path_exists fs1 (asset_name a) \<longrightarrow>
            ev = ev1 @ [Exists (asset_name a) True, Print AlreadyDownloaded, Print Starting,
                        System (join_space (asset_name a # drop 1 (argv cli)))]
            \<and> fs' = fs1 \<and> r = Inr ())
       \<and> (\<not> path_exists fs1 (asset_name a) \<longrightarrow>
            (\<exists>ev3. ev = ev1 @ Exists (asset_name a) False
                       # Print (if prelease cli then DownloadingPreRelease (asset_name a)
                                else DownloadingRelease (asset_name a))
                       # HttpGet (AssetUrl (browser_download_url a)) # ev3)
            \<and> (\<forall>k. k \<noteq> asset_name a \<longrightarrow> map_of fs' k = map_of fs1 k)
            \<and> (\<forall>status cs.
                  asset_get net (browser_download_url a) = Response status (cs, EndOfStream)
                  \<and> \<not> (400 \<le> status \<and> status < 600) \<longrightarrow>
                  ev = ev1 @ [Exists (asset_name a) False,
                              Print (if prelease cli then DownloadingPreRelease (asset_name a)
                                     else DownloadingRelease (asset_name a)),
                              HttpGet (AssetUrl (browser_download_url a)),
                              OpenWrite (asset_name a)]
                         @ map (\<lambda>c. Advance (length c)) cs
                         @ [Print (DownloadedSuccessfully (asset_name a)), Print Starting,
                            System (join_space (asset_name a # drop 1 (argv cli)))]
                  \<and> map_of fs' (asset_name a) = Some (File (concat cs))
                  \<and> r = Inr ()))"
proof -
  let ?t = "asset_name a"
  let ?msg = "Print (if prelease cli then DownloadingPreRelease ?t else DownloadingRelease ?t)"
  have same: "path_exists fs1 ?t \<longleftrightarrow> path_exists fs ?t"
    using path_exists_after_delete [of ?t fs] assms(2) by simp
  have noreq: "HttpGet v \<notin> set ev1" for v
    using delete_old_releases_no_request(1) [of v "Some ?t" fs] assms(2) by simp
  have noopen: "OpenWrite k \<notin> set ev1" for k
    using delete_old_releases_no_request(2) [of k "Some ?t" fs] assms(2) by simp
  let ?hand = "System (join_space (?t # drop 1 (argv cli)))"
  show ?thesis
  proof (cases "path_exists fs ?t")
    case True
    then have p1: "path_exists fs1 ?t" using same by simp
    from main_target_present [OF assms(1) True, of cli net] assms(2,3)
    have e: "ev = ev1 @ [Exists ?t True, Print AlreadyDownloaded, Print Starting, ?hand]"
      and f: "fs' = fs1" and rr: "r = Inr ()"
      by (simp_all add: command_def)
    have k2: "(\<exists>u. HttpGet (AssetUrl u) \<in> set ev) \<longleftrightarrow> \<not> path_exists fs1 ?t"
      unfolding e using noreq p1 by simp
    have k3: "(\<exists>n. OpenWrite n \<in> set ev) \<longrightarrow> \<not> path_exists fs1 ?t"
      unfolding e using noopen by simp
    have k4: "path_exists fs1 ?t \<longrightarrow>
        ev = ev1 @ [Exists ?t True, Print AlreadyDownloaded, Print Starting, ?hand]
        \<and> fs' = fs1 \<and> r = Inr ()"
      using e f rr by simp
    show ?thesis
      apply (rule conjI [OF same conjI [OF k2 conjI [OF k3 conjI [OF k4]]]])
      using p1 by simp
  next
    case False
    then have absent: "\<not> path_exists fs1 ?t" using same by simp
    from download_summary [OF assms(1), of "prelease cli" net fs1]
    obtain ev2 fs2 r2 where d: "download_latest_release (prelease cli) net (Some rel) fs1 = (ev2, fs2, r2)"
      and frame: "\<forall>k. k \<noteq> ?t \<longrightarrow> map_of fs2 k = map_of fs1 k"
      and starts: "\<exists>ev'. ev2 = ?msg # HttpGet (AssetUrl (browser_download_url a)) # ev'"
      by blast
    let ?after = "case r2 of Inl e \<Rightarrow> []
          | Inr u \<Rightarrow> [Print Starting, System (join_space (command ?t cli))]"
    from main_target_absent [OF assms(1) False, of cli net ev2 fs2 r2] d assms(2,3)
    have ev: "ev = ev1 @ Exists ?t False # ev2 @ ?after" and fs': "fs' = fs2" and r: "r = r2"
      by simp_all
    from starts obtain ev' where ev2: "ev2 = ?msg # HttpGet (AssetUrl (browser_download_url a)) # ev'"
      by blast
    have c1: "\<exists>ev3. ev = ev1 @ Exists ?t False # ?msg
                # HttpGet (AssetUrl (browser_download_url a)) # ev3"
      unfolding ev ev2 by simp
    have "HttpGet (AssetUrl (browser_download_url a)) \<in> set ev"
      unfolding ev ev2 by simp
    then have "\<exists>u. HttpGet (AssetUrl u) \<in> set ev" by (rule exI)
    then have k2: "(\<exists>u. HttpGet (AssetUrl u) \<in> set ev) \<longleftrightarrow> \<not> path_exists fs1 ?t"
      using absent by simp
    have k3: "(\<exists>n. OpenWrite n \<in> set ev) \<longrightarrow> \<not> path_exists fs1 ?t"
      using absent by simp
    have k4: "path_exists fs1 ?t \<longrightarrow>
        ev = ev1 @ [Exists ?t True, Print AlreadyDownloaded, Print Starting, ?hand]
        \<and> fs' = fs1 \<and> r = Inr ()"
      using absent by simp
    have c2: "\<forall>k. k \<noteq> ?t \<longrightarrow> map_of fs' k = map_of fs1 k" using frame fs' by simp
    have c3: "\<forall>status cs.
        asset_get net (browser_download_url a) = Response status (cs, EndOfStream)
        \<and> \<not> (400 \<le> status \<and> status < 600) \<longrightarrow>
        ev = ev1 @ [Exists ?t False, ?msg, HttpGet (AssetUrl (browser_download_url a)),
                    OpenWrite ?t]
               @ map (\<lambda>c. Advance (length c)) cs
               @ [Print (DownloadedSuccessfully ?t), Print Starting, ?hand]
        \<and> map_of fs' ?t = Some (File (concat cs)) \<and> r = Inr ()"
    proof (intro allI impI)
      fix status cs
      assume ok: "asset_get net (browser_download_url a) = Response status (cs, EndOfStream)
                \<and> \<not> (400 \<le> status \<and> status < 600)"
      have nodir: "map_of fs1 ?t \<noteq> Some Dir" using absent by (simp add: path_exists_def)
      from download_streamed [OF assms(1) conjunct1 [OF ok] conjunct2 [OF ok] nodir, of "prelease cli"]
      obtain fsd where dl: "download_latest_release (prelease cli) net (Some rel) fs1 =
          ([?msg, HttpGet (AssetUrl (browser_download_url a)), OpenWrite ?t]
           @ map (\<lambda>c. Advance (length c)) cs @ [Print (DownloadedSuccessfully ?t)], fsd, Inr ())"
        and m: "map_of fsd = (map_of fs1)(?t \<mapsto> File (concat cs))"
        by auto
      from dl d have e2: "ev2 = [?msg, HttpGet (AssetUrl (browser_download_url a)), OpenWrite ?t]
           @ map (\<lambda>c. Advance (length c)) cs @ [Print (DownloadedSuccessfully ?t)]"
        and f2: "fs2 = fsd" and r2: "r2 = Inr ()" by simp_all
      have "map_of fs' ?t = Some (File (concat cs))" using fs' f2 m by simp
      moreover have "r = Inr ()" using r r2 by simp
      moreover have "ev = ev1 @ [Exists ?t False, ?msg, HttpGet (AssetUrl (browser_download_url a)),
                    OpenWrite ?t]
               @ map (\<lambda>c. Advance (length c)) cs
               @ [Print (DownloadedSuccessfully ?t), Print Starting, ?hand]"
        unfolding ev e2 r2 by (simp add: command_def)
      ultimately show "ev = ev1 @ [Exists ?t False, ?msg, HttpGet (AssetUrl (browser_download_url a)),
                    OpenWrite ?t]
               @ map (\<lambda>c. Advance (length c)) cs
               @ [Print (DownloadedSuccessfully ?t), Print Starting, ?hand]
        \<and> map_of fs' ?t = Some (File (concat cs)) \<and> r = Inr ()"
        by (intro conjI)
    qed
    show ?thesis
      by (rule conjI [OF same conjI [OF k2 conjI [OF k3 conjI [OF k4
            impI [OF conjI [OF c1 conjI [OF c2 c3]]]]]]])
  qed
qed

text \<open>
  The theorem at a directory that holds the target, where nothing is downloaded, and at
  one that does not, where the three bytes the server sends become the target.
\<close>

theorem main_downloads_iff_absent_witness:
  "main \<lparr>prelease = False, argv = [''CollapseUpdater.exe'', ''--nogui'']\<rparr>
     \<lparr>api_latest = Raised, api_releases = Raised,
      asset_get = answering (Response 200 ([[1], [2, 3]], EndOfStream))\<rparr>
     (Some (a_release ''v2'' False [an_asset ''CollapseLoader-2.exe'']))
     [(''CollapseLoader-2.exe'', File [2]), (''notes.txt'', File [7])]
   = ([Exists ''CollapseLoader-2.exe'' True, Print AlreadyDownloaded, Print Starting,
       System ''CollapseLoader-2.exe --nogui''],
      [(''CollapseLoader-2.exe'', File [2]), (''notes.txt'', File [7])], Inr ())
   \<and> (\<exists>fs'. main \<lparr>prelease = False, argv = [''CollapseUpdater.exe'', ''--nogui'']\<rparr>
     \<lparr>api_latest = Raised, api_releases = Raised,
      asset_get = answering (Response 200 ([[1], [2, 3]], EndOfStream))\<rparr>
     (Some (a_release ''v2'' False [an_asset ''CollapseLoader-2.exe'']))
     [(''notes.txt'', File [7])]
   = ([Exists ''CollapseLoader-2.exe'' False,
       Print (DownloadingRelease ''CollapseLoader-2.exe''),
       HttpGet (AssetUrl ''https://github.com/dl/CollapseLoader-2.exe''),
       OpenWrite ''CollapseLoader-2.exe'', Advance 1, Advance 2,
       Print (DownloadedSuccessfully ''CollapseLoader-2.exe''),
       Print Starting, System ''CollapseLoader-2.exe --nogui''],
      fs', Inr ())
     \<and> map_of fs' ''CollapseLoader-2.exe'' = Some (File [1, 2, 3])
     \<and> map_of fs' ''notes.txt'' = Some (File [7]))"
proof -
  let ?a = "an_asset ''CollapseLoader-2.exe''"
  let ?rel = "a_release ''v2'' False [?a]"
  let ?cli = "\<lparr>prelease = False, argv = [''CollapseUpdater.exe'', ''--nogui'']\<rparr>"
  let ?net = "\<lparr>api_latest = Raised, api_releases = Raised,
      asset_get = answering (Response 200 ([[1], [2, 3]], EndOfStream))\<rparr>"
  let ?fsA = "[(''CollapseLoader-2.exe'', File [2]), (''notes.txt'', File [7])]"
  let ?fsB = "[(''notes.txt'', File [7])]"
  have h1: "assets ?rel = [?a]" by (simp add: a_release_def)
  have pA: "delete_old_releases (Some (asset_name ?a)) ?fsA = ([], ?fsA)"
    by (simp add: run_simps)
  have pB: "delete_old_releases (Some (asset_name ?a)) ?fsB = ([], ?fsB)"
    by (simp add: run_simps)
  have presentA: "path_exists ?fsA (asset_name ?a)" by (simp add: path_exists_def an_asset_def)
  have absentB: "\<not> path_exists ?fsB (asset_name ?a)" by (simp add: path_exists_def an_asset_def)
  have answer: "asset_get ?net (browser_download_url ?a) = Response 200 ([[1], [2, 3]], EndOfStream)
      \<and> \<not> (400 \<le> (200::nat) \<and> (200::nat) < 600)"
    by (simp add: answering_def)
  obtain evA fsA' rA where mA: "main ?cli ?net (Some ?rel) ?fsA = (evA, fsA', rA)"
    by (cases "main ?cli ?net (Some ?rel) ?fsA")
  obtain evB fsB' rB where mB: "main ?cli ?net (Some ?rel) ?fsB = (evB, fsB', rB)"
    by (cases "main ?cli ?net (Some ?rel) ?fsB")
  note atA = main_downloads_iff_absent [OF h1 pA mA]
  note atB = main_downloads_iff_absent [OF h1 pB mB]
  have A: "evA = [] @ [Exists (asset_name ?a) True, Print AlreadyDownloaded, Print Starting,
                        System (join_space (asset_name ?a # drop 1 (argv ?cli)))]
      \<and> fsA' = ?fsA \<and> rA = Inr ()"
    by (rule mp [OF atA [THEN conjunct2, THEN conjunct2, THEN conjunct2, THEN conjunct1] presentA])
  note dl = mp [OF atB [THEN conjunct2, THEN conjunct2, THEN conjunct2, THEN conjunct2] absentB]
  have frame: "\<forall>k. k \<noteq> asset_name ?a \<longrightarrow> map_of fsB' k = map_of ?fsB k"
    by (rule dl [THEN conjunct2, THEN conjunct1])
  have B: "evB = [] @ [Exists (asset_name ?a) False,
                  Print (if prelease ?cli then DownloadingPreRelease (asset_name ?a)
                         else DownloadingRelease (asset_name ?a)),
                  HttpGet (AssetUrl (browser_download_url ?a)),
                  OpenWrite (asset_name ?a)]
             @ map (\<lambda>c. Advance (length c)) ([[1], [2, 3]] :: bytes list)
             @ [Print (DownloadedSuccessfully (asset_name ?a)), Print Starting,
                System (join_space (asset_name ?a # drop 1 (argv ?cli)))]
      \<and> map_of fsB' (asset_name ?a) = Some (File (concat [[1], [2, 3]]))
      \<and> rB = Inr ()"
    by (rule mp [OF dl [THEN conjunct2, THEN conjunct2, THEN spec, THEN spec] answer])
  from frame have keep: "map_of fsB' ''notes.txt'' = Some (File [7])"
    by (simp add: an_asset_def)
  show ?thesis using mA mB A B keep by (simp add: an_asset_def)
qed

text \<open>
  C8 as stated fails for a resolved release that lists no asset: in an empty directory,
  where no file of any name exists, the run stops at \<^verbatim>\<open>['assets'][0]\<close> and no download
  is performed.
\<close>

theorem main_downloads_counterexample:
  "get_latest_release True
     \<lparr>api_latest = Raised,
      api_releases = Response 200 [a_release ''v3-beta'' True []],
      asset_get = answering (Response 200 ([[1, 2]], EndOfStream))\<rparr>
   = ([HttpGet ApiReleases, Print FetchingPreRelease], Some (a_release ''v3-beta'' True []))
   \<and> run \<lparr>prelease = True, argv = [''CollapseUpdater.exe'', ''--prelease'']\<rparr>
       \<lparr>api_latest = Raised,
        api_releases = Response 200 [a_release ''v3-beta'' True []],
        asset_get = answering (Response 200 ([[1, 2]], EndOfStream))\<rparr> []
     = ([Print (Banner ''dest4590/CollapseLoader''), HttpGet ApiReleases,
         Print FetchingPreRelease], [], Inl IndexError)"
  by (simp add: start_simps run_simps)

text \<open>
  C9, as the code has it. After a run that downloaded the target and reached the handoff,
  a second run that resolves the same release requests no download, opens and removes no
  file, leaves the directory as it is and hands off to the target. The regular files
  named \<^verbatim>\<open>CollapseLoader*\<close> are then at most the target: exactly the target when its
  name starts with \<^verbatim>\<open>CollapseLoader\<close>, and none otherwise.
\<close>

theorem second_run_transfers_nothing:
  assumes first: "run cli net fs = (ev1, fs1, Inr ())"
    and downloaded: "HttpGet (AssetUrl u) \<in> set ev1"
    and same: "snd (get_latest_release (prelease cli) net2) = snd (get_latest_release (prelease cli) net)"
    and second: "run cli net2 fs1 = (ev2, fs2, r2)"
  shows "(\<forall>v. HttpGet (AssetUrl v) \<notin> set ev2) \<and> (\<forall>n. OpenWrite n \<notin> set ev2)
       \<and> (\<forall>n. Remove n \<notin> set ev2) \<and> r2 = Inr () \<and> fs2 = fs1
       \<and> (\<exists>rel a rest. snd (get_latest_release (prelease cli) net) = Some rel \<and> assets rel = a # rest
            \<and> System (join_space (asset_name a # drop 1 (argv cli))) \<in> set ev2
            \<and> path_isfile fs2 (asset_name a)
            \<and> {n. matches_prefix n \<and> path_isfile fs2 n} \<subseteq> {asset_name a}
            \<and> (matches_prefix (asset_name a) \<longrightarrow>
                  {n. matches_prefix n \<and> path_isfile fs2 n} = {asset_name a}))"
proof -
  have "fst (run cli net fs) \<noteq> []" using first downloaded by auto
  with run_not_started [of cli net fs]
  obtain a0 as where argv: "argv cli = a0 # as" and guard: "\<not> sublist ''_child.py'' a0"
    by (cases "argv cli") auto
  obtain evr latest where res: "get_latest_release (prelease cli) net = (evr, latest)"
    by (cases "get_latest_release (prelease cli) net")
  obtain evm fsm rm where m: "main cli net latest fs = (evm, fsm, rm)"
    by (cases "main cli net latest fs") auto
  from run_started [OF argv guard res m] first
  have ev1: "ev1 = Print (Banner github_repo) # evr @ evm" and fsm: "fsm = fs1" and rm: "rm = Inr ()"
    by simp_all
  have "HttpGet (AssetUrl u) \<notin> set evr"
    using get_latest_release_events [of "HttpGet (AssetUrl u)" "prelease cli" net] res by auto
  then have inm: "HttpGet (AssetUrl u) \<in> set evm" using downloaded ev1 by simp
  then obtain rel where latest: "latest = Some rel"
    using m main_unresolved [of cli net fs] by (cases latest) auto
  obtain a rest where assets: "assets rel = a # rest"
    using m rm latest main_no_asset [of rel cli net fs] by (cases "assets rel") auto
  let ?n = "asset_name a"
  from main_after_download [OF assets m [unfolded latest fsm rm] inm]
  have isf: "path_isfile fs1 ?n"
    and only: "\<forall>n. matches_prefix n \<and> path_isfile fs1 n \<longrightarrow> n = ?n" by blast+
  have idle: "delete_old_releases (Some ?n) fs1 = ([], fs1)"
    using only by (intro delete_old_releases_idle) auto
  obtain evr2 where res2: "get_latest_release (prelease cli) net2 = (evr2, Some rel)"
    using same res latest by (cases "get_latest_release (prelease cli) net2") auto
  have m2: "main cli net2 (Some rel) fs1 =
      ([Exists ?n True, Print AlreadyDownloaded, Print Starting,
        System (join_space (command ?n cli))], fs1, Inr ())"
    using main_target_present [OF assets path_isfile_exists [OF isf], of cli net2] idle by simp
  from run_started [OF argv guard res2 m2] second
  have ev2: "ev2 = Print (Banner github_repo) # evr2
      @ [Exists ?n True, Print AlreadyDownloaded, Print Starting,
         System (join_space (command ?n cli))]"
    and fs2: "fs2 = fs1" and r2: "r2 = Inr ()" by simp_all
  have quiet: "e \<in> set evr2 \<Longrightarrow> e = HttpGet ApiLatest \<or> e = HttpGet ApiReleases \<or> (\<exists>m. e = Print m)" for e
    using get_latest_release_events [of e "prelease cli" net2] res2 by simp
  have a: "\<forall>v. HttpGet (AssetUrl v) \<notin> set ev2" using quiet ev2 by auto
  have b: "\<forall>n. OpenWrite n \<notin> set ev2" using quiet ev2 by auto
  have c: "\<forall>n. Remove n \<notin> set ev2" using quiet ev2 by auto
  have sub: "{n. matches_prefix n \<and> path_isfile fs2 n} \<subseteq> {?n}" using only fs2 by auto
  have eq: "matches_prefix ?n \<longrightarrow> {n. matches_prefix n \<and> path_isfile fs2 n} = {?n}"
  proof (intro impI equalityI sub)
    assume "matches_prefix ?n"
    then show "{?n} \<subseteq> {n. matches_prefix n \<and> path_isfile fs2 n}" using isf fs2 by simp
  qed
  have sys: "System (join_space (?n # drop 1 (argv cli))) \<in> set ev2"
    unfolding ev2 command_def by simp
  have resolved: "snd (get_latest_release (prelease cli) net) = Some rel" using res latest by simp
  have isf2: "path_isfile fs2 ?n" using isf fs2 by simp
  have last: "\<exists>rel a rest. snd (get_latest_release (prelease cli) net) = Some rel \<and> assets rel = a # rest
            \<and> System (join_space (asset_name a # drop 1 (argv cli))) \<in> set ev2
            \<and> path_isfile fs2 (asset_name a)
            \<and> {n. matches_prefix n \<and> path_isfile fs2 n} \<subseteq> {asset_name a}
            \<and> (matches_prefix (asset_name a) \<longrightarrow>
                  {n. matches_prefix n \<and> path_isfile fs2 n} = {asset_name a})"
    by (intro exI [of _ rel] exI [of _ a] exI [of _ rest] conjI resolved assets sys isf2 sub eq)
  show ?thesis by (intro conjI a b c r2 fs2 last)
qed

text \<open>The theorem at an old release replaced by the download of the first run.\<close>

theorem second_run_transfers_nothing_witness:
  "run \<lparr>prelease = False, argv = [''CollapseUpdater.exe'']\<rparr>
     \<lparr>api_latest = Response 200 (a_release ''v2'' False [an_asset ''CollapseLoader-2.exe'']),
      api_releases = Raised,
      asset_get = answering (Response 200 ([[1, 2]], EndOfStream))\<rparr>
     [(''CollapseLoader-1.exe'', File [1])]
   = ([Print (Banner ''dest4590/CollapseLoader''), HttpGet ApiLatest,
       Remove ''CollapseLoader-1.exe'', Print (DeletedOldRelease ''CollapseLoader-1.exe''),
       Exists ''CollapseLoader-2.exe'' False,
       Print (DownloadingRelease ''CollapseLoader-2.exe''),
       HttpGet (AssetUrl ''https://github.com/dl/CollapseLoader-2.exe''),
       OpenWrite ''CollapseLoader-2.exe'', Advance 2,
       Print (DownloadedSuccessfully ''CollapseLoader-2.exe''),
       Print Starting, System ''CollapseLoader-2.exe''],
      [(''CollapseLoader-2.exe'', File [1, 2])], Inr ())
   \<and> matches_prefix ''CollapseLoader-2.exe''
   \<and> (\<exists>ev2. run \<lparr>prelease = False, argv = [''CollapseUpdater.exe'']\<rparr>
     \<lparr>api_latest = Response 200 (a_release ''v2'' False [an_asset ''CollapseLoader-2.exe'']),
      api_releases = Raised, asset_get = answering Raised\<rparr>
     [(''CollapseLoader-2.exe'', File [1, 2])]
     = (ev2, [(''CollapseLoader-2.exe'', File [1, 2])], Inr ())
     \<and> HttpGet (AssetUrl ''https://github.com/dl/CollapseLoader-2.exe'') \<notin> set ev2)
   \<and> {n. matches_prefix n \<and> path_isfile [(''CollapseLoader-2.exe'', File [1, 2])] n}
       = {''CollapseLoader-2.exe''}"
proof -
  let ?rel = "a_release ''v2'' False [an_asset ''CollapseLoader-2.exe'']"
  let ?cli = "\<lparr>prelease = False, argv = [''CollapseUpdater.exe'']\<rparr>"
  let ?net = "\<lparr>api_latest = Response 200 ?rel, api_releases = Raised,
      asset_get = answering (Response 200 ([[1, 2]], EndOfStream))\<rparr>"
  let ?net2 = "\<lparr>api_latest = Response 200 ?rel, api_releases = Raised,
      asset_get = answering Raised\<rparr>"
  let ?fs1 = "[(''CollapseLoader-2.exe'', File [1, 2])]"
  let ?u = "''https://github.com/dl/CollapseLoader-2.exe''"
  let ?ev1 = "[Print (Banner ''dest4590/CollapseLoader''), HttpGet ApiLatest,
       Remove ''CollapseLoader-1.exe'', Print (DeletedOldRelease ''CollapseLoader-1.exe''),
       Exists ''CollapseLoader-2.exe'' False,
       Print (DownloadingRelease ''CollapseLoader-2.exe''),
       HttpGet (AssetUrl ?u),
       OpenWrite ''CollapseLoader-2.exe'', Advance 2,
       Print (DownloadedSuccessfully ''CollapseLoader-2.exe''),
       Print Starting, System ''CollapseLoader-2.exe'']"
  have first: "run ?cli ?net [(''CollapseLoader-1.exe'', File [1])] = (?ev1, ?fs1, Inr ())"
    by (simp add: start_simps run_simps)
  have downloaded: "HttpGet (AssetUrl ?u) \<in> set ?ev1" by simp
  have same: "snd (get_latest_release (prelease ?cli) ?net2)
      = snd (get_latest_release (prelease ?cli) ?net)"
    by (simp add: get_latest_release_def)
  have resolved: "snd (get_latest_release (prelease ?cli) ?net) = Some ?rel"
    by (simp add: get_latest_release_def fetch_def)
  have mp: "matches_prefix ''CollapseLoader-2.exe''"
    by (simp add: matches_prefix_def release_prefix_def)
  obtain ev2 fs2 r2 where second: "run ?cli ?net2 ?fs1 = (ev2, fs2, r2)"
    by (cases "run ?cli ?net2 ?fs1") auto
  from second_run_transfers_nothing [OF first downloaded same second]
  have quiet: "\<forall>v. HttpGet (AssetUrl v) \<notin> set ev2" and r2: "r2 = Inr ()" and fs2: "fs2 = ?fs1"
    and "\<exists>rel a rest. snd (get_latest_release (prelease ?cli) ?net) = Some rel \<and> assets rel = a # rest
            \<and> (matches_prefix (asset_name a) \<longrightarrow>
                  {n. matches_prefix n \<and> path_isfile fs2 n} = {asset_name a})"
    by blast+
  then have "{n. matches_prefix n \<and> path_isfile ?fs1 n} = {''CollapseLoader-2.exe''}"
    using resolved mp by (auto simp: a_release_def an_asset_def)
  then show ?thesis using first mp second quiet r2 fs2 by simp
qed

text \<open>
  C9 as stated fails for an asset whose name does not start with \<^verbatim>\<open>CollapseLoader\<close>:
  after the two runs the directory holds the target and no file matching the prefix.
\<close>

theorem second_run_counterexample:
  "run \<lparr>prelease = False, argv = [''CollapseUpdater.exe'']\<rparr>
     \<lparr>api_latest = Response 200 (a_release ''v2'' False [an_asset ''Loader-2.exe'']),
      api_releases = Raised,
      asset_get = answering (Response 200 ([[1, 2]], EndOfStream))\<rparr> []
   = ([Print (Banner ''dest4590/CollapseLoader''), HttpGet ApiLatest,
       Exists ''Loader-2.exe'' False,
       Print (DownloadingRelease ''Loader-2.exe''),
       HttpGet (AssetUrl ''https://github.com/dl/Loader-2.exe''),
       OpenWrite ''Loader-2.exe'', Advance 2, Print (DownloadedSuccessfully ''Loader-2.exe''),
       Print Starting, System ''Loader-2.exe''],
      [(''Loader-2.exe'', File [1, 2])], Inr ())
   \<and> run \<lparr>prelease = False, argv = [''CollapseUpdater.exe'']\<rparr>
     \<lparr>api_latest = Response 200 (a_release ''v2'' False [an_asset ''Loader-2.exe'']),
      api_releases = Raised,
      asset_get = answering (Response 200 ([[1, 2]], EndOfStream))\<rparr>
     [(''Loader-2.exe'', File [1, 2])]
   = ([Print (Banner ''dest4590/CollapseLoader''), HttpGet ApiLatest,
       Exists ''Loader-2.exe'' True,
       Print AlreadyDownloaded, Print Starting, System ''Loader-2.exe''],
      [(''Loader-2.exe'', File [1, 2])], Inr ())
   \<and> glob_old_releases [(''Loader-2.exe'', File [1, 2])] = []
   \<and> \<not> matches_prefix ''Loader-2.exe''"
  by (simp add: start_simps run_simps)

end
